theory Spec2Isabelle
  imports Main "HOL-Library.Word" "HOL-Library.Log_Nat" "HOL-Library.Multiset"
    "HOL-Library.Char_ord" "HOL-Library.List_Lexorder"
begin

unbundle bit_operations_syntax

section \<open>Data model\<close>

subsection \<open>Machine types\<close>

text \<open>
  The Go types \<open>int\<close>, \<open>int64\<close> and \<open>uint64\<close> are 64-bit words; a signed
  reading is \<open>sint\<close>, an unsigned one \<open>uint\<close>. The enumerations of package \<open>expr\<close>
  (\<open>AggregateOp\<close>, \<open>CmpOp\<close>, \<open>LogicalOp\<close>, ...) are declared \<open>int\<close> in the source and
  can hold any value of that type, so they are words too, with the declared constants
  as definitions.
\<close>

type_synonym go_int = "64 word"
type_synonym AggregateOp = "64 word"
type_synonym CmpOp = "64 word"
type_synonym LogicalOp = "64 word"
type_synonym StringMatchOp = "64 word"
type_synonym UnaryArithOp = "64 word"
type_synonym ArithOp = "64 word"
type_synonym Keyword = "64 word"
type_synonym BuiltinOp = "64 word"
type_synonym TypeSet = "16 word"
type_synonym UnionType = "8 word"

definition OpNone :: AggregateOp where "OpNone = 0"
definition OpCount :: AggregateOp where "OpCount = 1"
definition OpSum :: AggregateOp where "OpSum = 2"
definition OpAvg :: AggregateOp where "OpAvg = 3"
definition OpMin :: AggregateOp where "OpMin = 4"
definition OpMax :: AggregateOp where "OpMax = 5"
definition OpCountDistinct :: AggregateOp where "OpCountDistinct = 6"
definition OpSumInt :: AggregateOp where "OpSumInt = 7"
definition OpSumCount :: AggregateOp where "OpSumCount = 8"
definition OpBitAnd :: AggregateOp where "OpBitAnd = 9"
definition OpBitOr :: AggregateOp where "OpBitOr = 10"
definition OpBitXor :: AggregateOp where "OpBitXor = 11"
definition OpBoolAnd :: AggregateOp where "OpBoolAnd = 12"
definition OpBoolOr :: AggregateOp where "OpBoolOr = 13"
definition OpEarliest :: AggregateOp where "OpEarliest = 14"
definition OpLatest :: AggregateOp where "OpLatest = 15"
definition OpApproxCountDistinct :: AggregateOp where "OpApproxCountDistinct = 16"
definition OpApproxCountDistinctPartial :: AggregateOp where "OpApproxCountDistinctPartial = 17"
definition OpApproxCountDistinctMerge :: AggregateOp where "OpApproxCountDistinctMerge = 18"
definition OpVariancePop :: AggregateOp where "OpVariancePop = 19"
definition OpStdDevPop :: AggregateOp where "OpStdDevPop = 20"
definition OpRowNumber :: AggregateOp where "OpRowNumber = 21"
definition OpRank :: AggregateOp where "OpRank = 22"
definition OpDenseRank :: AggregateOp where "OpDenseRank = 23"
definition OpSystemDatashape :: AggregateOp where "OpSystemDatashape = 24"
definition OpSystemDatashapeMerge :: AggregateOp where "OpSystemDatashapeMerge = 25"

definition OpAnd :: LogicalOp where "OpAnd = 0"
definition OpOr :: LogicalOp where "OpOr = 1"
definition OpXnor :: LogicalOp where "OpXnor = 2"
definition OpXor :: LogicalOp where "OpXor = 3"

text \<open>
  A \<open>float64\<close> is a finite value (a rational that binary64 represents; \<open>FFinite 0\<close> is
  \<open>+0\<close>), the negative zero, an infinity or a NaN.
\<close>

datatype float64 = FFinite rat | FNegZero | FPosInf | FNegInf | FNaN

text \<open>
  Rounding a rational to the nearest \<open>float64\<close>, ties to even: \<open>ilog2 q\<close> is the binary
  exponent of a positive \<open>q\<close> (\<open>2 ^ e \<le> q < 2 ^ (e + 1)\<close>); the spacing of the
  representable values around \<open>q\<close> is \<open>2 ^ (e - 52)\<close>, and never less than that of the
  subnormal numbers; a result of \<open>2 ^ 1024\<close> or more is an infinity. A negative value that
  rounds to zero is the negative zero.
\<close>

definition ilog2 :: "rat \<Rightarrow> int" where
  "ilog2 q = (case quotient_of q of (a, b) \<Rightarrow>
     (let k = bitlen a - bitlen b
      in if 2 powi k \<le> q then k else k - 1))"

definition round_half_even :: "rat \<Rightarrow> int" where
  "round_half_even t =
     (let fl = \<lfloor>t\<rfloor>; r = t - of_int fl
      in if r < 1 / 2 then fl else if 1 / 2 < r then fl + 1
         else if even fl then fl else fl + 1)"

definition round64_pos :: "rat \<Rightarrow> float64" where
  "round64_pos q =
     (let e = max (ilog2 q) (- 1022);
          ulp = 2 powi (e - 52);
          m = round_half_even (q / ulp)
      in if 1024 \<le> e \<or> (e = 1023 \<and> 2 ^ 53 \<le> m) then FPosInf
         else FFinite (of_int m * ulp))"

fun fneg :: "float64 \<Rightarrow> float64" where
  "fneg (FFinite q) = (if q = 0 then FNegZero else FFinite (- q))"
| "fneg FNegZero = FFinite 0"
| "fneg FPosInf = FNegInf"
| "fneg FNegInf = FPosInf"
| "fneg FNaN = FNaN"

definition round64 :: "rat \<Rightarrow> float64" where
  "round64 q = (if q = 0 then FFinite 0 else if 0 < q then round64_pos q
                else fneg (round64_pos (- q)))"

fun is_finite :: "float64 \<Rightarrow> bool" where
  "is_finite (FFinite q) = True"
| "is_finite FNegZero = True"
| "is_finite f = False"

fun fval :: "float64 \<Rightarrow> rat" where
  "fval (FFinite q) = q"
| "fval f = 0"

text \<open>
  The comparisons \<open>==\<close> and \<open><\<close> of \<open>float64\<close> (a NaN compares false with everything,
  the two zeros are equal), \<open>math.Abs\<close>, and the subtraction, which is rounded.
\<close>

definition feq :: "float64 \<Rightarrow> float64 \<Rightarrow> bool" where
  "feq a b = (if a = FNaN \<or> b = FNaN then False
              else if is_finite a \<and> is_finite b then fval a = fval b
              else a = b)"

definition flt :: "float64 \<Rightarrow> float64 \<Rightarrow> bool" where
  "flt a b = (if a = FNaN \<or> b = FNaN then False
              else if a = FNegInf then b \<noteq> FNegInf
              else if b = FPosInf then a \<noteq> FPosInf
              else if a = FPosInf \<or> b = FNegInf then False
              else fval a < fval b)"

fun fabs :: "float64 \<Rightarrow> float64" where
  "fabs (FFinite q) = FFinite \<bar>q\<bar>"
| "fabs FNegZero = FFinite 0"
| "fabs FPosInf = FPosInf"
| "fabs FNegInf = FPosInf"
| "fabs FNaN = FNaN"

definition fsub :: "float64 \<Rightarrow> float64 \<Rightarrow> float64" where
  "fsub a b =
     (if a = FNaN \<or> b = FNaN then FNaN
      else if a = FPosInf then (if b = FPosInf then FNaN else FPosInf)
      else if a = FNegInf then (if b = FNegInf then FNaN else FNegInf)
      else if b = FPosInf then FNegInf
      else if b = FNegInf then FPosInf
      else let d = fval a - fval b in
        if d = 0 then (if a = FNegZero \<and> b \<noteq> FNegZero then FNegZero else FFinite 0)
        else round64 d)"

text \<open>
  \<open>math.Signbit\<close>, the \<open>sign\<close> of the source (\<open>-1\<close> or \<open>1\<close>), and \<open>math.IsInf\<close>, whose
  second argument picks the infinity (\<open>0\<close>: either).
\<close>

fun Signbit :: "float64 \<Rightarrow> bool" where
  "Signbit (FFinite q) = (q < 0)"
| "Signbit FNegZero = True"
| "Signbit FNegInf = True"
| "Signbit f = False"

definition sign :: "float64 \<Rightarrow> int" where
  "sign f = (if Signbit f then - 1 else 1)"

definition IsInf :: "float64 \<Rightarrow> int \<Rightarrow> bool" where
  "IsInf f sg = (sg \<ge> 0 \<and> f = FPosInf \<or> sg \<le> 0 \<and> f = FNegInf)"

text \<open>
  The conversions: \<open>float64(i)\<close> of an \<open>int64\<close> rounds; \<open>int64(f)\<close> truncates towards
  zero, and where the result does not fit (or \<open>f\<close> is a NaN) Go leaves the value to
  the platform: amd64 gives the least \<open>int64\<close>. \<open>(*big.Rat).Float64\<close> returns the
  nearest \<open>float64\<close> and whether it is exact.
\<close>

definition float64_of_int64 :: "64 word \<Rightarrow> float64" where
  "float64_of_int64 i = round64 (of_int (sint i))"

definition trunc_rat :: "rat \<Rightarrow> int" where
  "trunc_rat q = (if 0 \<le> q then \<lfloor>q\<rfloor> else - \<lfloor>- q\<rfloor>)"

definition int64_of_float64 :: "float64 \<Rightarrow> 64 word" where
  "int64_of_float64 f =
     (if is_finite f \<and> - (2 ^ 63) \<le> trunc_rat (fval f) \<and> trunc_rat (fval f) < 2 ^ 63
      then word_of_int (trunc_rat (fval f))
      else word_of_int (- (2 ^ 63)))"

definition rat_Float64 :: "rat \<Rightarrow> float64 \<times> bool" where
  "rat_Float64 q = (round64 q, round64 q = FFinite q)"

text \<open>
  \<open>IsInt\<close>, \<open>Num\<close> and \<open>IsInt64\<close> of \<open>math/big\<close>: the rational is an integer, its
  numerator in lowest terms, and whether an integer fits \<open>int64\<close>.
\<close>

definition IsInt :: "rat \<Rightarrow> bool" where
  "IsInt q = (snd (quotient_of q) = 1)"

definition Num :: "rat \<Rightarrow> int" where
  "Num q = fst (quotient_of q)"

definition IsInt64 :: "int \<Rightarrow> bool" where
  "IsInt64 n = (- (2 ^ 63) \<le> n \<and> n < 2 ^ 63)"

subsection \<open>Errors\<close>

text \<open>
  An error is a value: \<open>reject\<close> wraps \<open>ErrNotSupported\<close> with a message; a panic of
  the Go runtime is \<open>Panic\<close>.
\<close>

datatype error = ErrNotSupported string | Panic string

definition reject :: "string \<Rightarrow> error" where
  "reject msg = ErrNotSupported msg"

subsection \<open>Ion data\<close>

text \<open>
  Package \<open>ion\<close> is a collaborator of the planner. A datum is one of the typed values
  the codec writes: null, bool, int, uint, float, string, symbol, timestamp, blob,
  list and struct (a list of labelled fields).
\<close>

datatype datum =
    DNull
  | DBool bool
  | DInt "64 word"
  | DUint "64 word"
  | DFloat float64
  | DString string
  | DSymbol string
  | DTimestamp int
  | DBlob "8 word list"
  | DList "datum list"
  | DStruct "(string \<times> datum) list"

subsection \<open>Expression nodes (package expr)\<close>

text \<open>
  \<open>Constant\<close> is the interface of the literal nodes: \<open>String\<close>, \<open>Integer\<close>, \<open>Float\<close>,
  \<open>Bool\<close>, \<open>*Timestamp\<close>, \<open>Null\<close>, \<open>*Rational\<close>, and the literals \<open>*Struct\<close> and
  \<open>*List\<close> whose members are constants themselves. A timestamp is an instant,
  counted in microseconds; a \<open>big.Rat\<close> is a rational number.
\<close>

datatype const =
    String string
  | Integer "64 word"
  | Float float64
  | Bool bool
  | Timestamp int
  | Null
  | Rational rat
  | Struct "(string \<times> const) list"
  | List "const list"

text \<open>
  \<open>Equals\<close> on the constants. Numbers of different representations are compared
  by value, each pair of types by its own branch of the source; a struct compares
  the labels and calls \<open>Equals\<close> of the other side's values, a list that of its own.
\<close>

function const_Equals :: "const \<Rightarrow> const \<Rightarrow> bool" where
  "const_Equals (Bool b) e = (case e of Bool eb \<Rightarrow> b = eb | _ \<Rightarrow> False)"
| "const_Equals (String s) e = (case e of String es \<Rightarrow> s = es | _ \<Rightarrow> False)"
| "const_Equals (Float f) e =
     (case e of
        Float ef \<Rightarrow> feq f ef
      | Integer ei \<Rightarrow> feq f (float64_of_int64 ei)
      | Rational ri \<Rightarrow> (case rat_Float64 ri of (rif, ok) \<Rightarrow> ok \<and> feq rif f)
      | _ \<Rightarrow> False)"
| "const_Equals (Integer i) e =
     (case e of
        Integer ei \<Rightarrow> ei = i
      | Float ef \<Rightarrow>
          (let trunc = int64_of_float64 ef
           in feq (float64_of_int64 trunc) ef \<and> trunc = i)
      | Rational er \<Rightarrow>
          (if IsInt er then (if IsInt64 (Num er) then word_of_int (Num er) = i else False)
           else False)
      | _ \<Rightarrow> False)"
| "const_Equals (Rational r) e =
     (case e of
        Rational er \<Rightarrow> er = r
      | Float ef \<Rightarrow>
          (case rat_Float64 r of (f, ok) \<Rightarrow>
             if \<not> ok \<and> IsInf f 0 \<and> IsInf ef (sign f) then True
             else flt (fabs (fsub f ef)) (round64 (1 / 10 ^ 16)))
      | Integer ei \<Rightarrow>
          (if IsInt r then (if IsInt64 (Num r) then ei = word_of_int (Num r) else False)
           else False)
      | _ \<Rightarrow> False)"
| "const_Equals (Timestamp t) e = (case e of Timestamp te \<Rightarrow> t = te | _ \<Rightarrow> False)"
| "const_Equals Null e = (case e of Null \<Rightarrow> True | _ \<Rightarrow> False)"
| "const_Equals (Struct fs) e =
     (case e of
        Struct fs2 \<Rightarrow>
          (if length fs \<noteq> length fs2 then False
           else list_all2 (\<lambda>f f2. fst f2 = fst f \<and> const_Equals (snd f2) (snd f)) fs fs2)
      | _ \<Rightarrow> False)"
| "const_Equals (List vs) e =
     (case e of
        List vs2 \<Rightarrow>
          (if length vs \<noteq> length vs2 then False
           else list_all2 (\<lambda>v v2. const_Equals v v2) vs vs2)
      | _ \<Rightarrow> False)"
  by pat_completeness auto

lemma size_snd_in_set:
  "f \<in> set fs \<Longrightarrow> size (snd f) < size_list (\<lambda>x. Suc (size (snd x))) fs"
  by (induction fs) auto

lemma size_in_set: "z \<in> set vs \<Longrightarrow> size z \<le> size_list size vs"
  by (induction vs) auto

termination const_Equals
proof (relation "measure (\<lambda>(a, b). size a + size b)", goal_cases)
  case 1
  show ?case by simp
next
  case (2 fs e fs2 f f2)
  then show ?case
    using size_snd_in_set [of f fs] size_snd_in_set [of f2 fs2] by (simp add: size_prod_simp)
next
  case (3 vs e vs2 v v2)
  then show ?case
    using size_in_set [of v vs] size_in_set [of v2 vs2] by simp
qed

text \<open>
  \<open>Node\<close> is the interface of all expression nodes; \<open>Lit\<close> injects a constant.
  A field that the source allows to be \<open>nil\<close> is an option. \<open>Order\<close> is the sort key
  of a window (\<open>Column\<close>, \<open>Desc\<close>, \<open>NullsLast\<close>).
\<close>

datatype node =
    Lit const
  | Ident string
  | Dot node string
  | Index node go_int
  | Star
  | Missing
  | Aggregate aggregate
  | Member node "datum list"
  | Lookup node "node option" "datum list" "datum list"
  | Comparison CmpOp node node
  | StringMatch StringMatchOp node string string
  | Not_expr node
  | Logical LogicalOp node node
  | Builtin BuiltinOp string "node list"
  | UnaryArith UnaryArithOp node
  | Arithmetic ArithOp node node
  | Appended "node list"
  | IsKey node Keyword
  | Case "caselimb list" "node option" string
  | Cast node TypeSet
  | Unpivot node "string option" "string option"
  | Union_expr UnionType node node
and aggregate =
    Aggr (agg_Op: AggregateOp) (agg_Precision: "8 word") (agg_Inner: "node option")
        (agg_Over: "window option") (agg_Filter: "node option")
and window = Window (PartitionBy: "node list") (OrderBy_of: "order list")
and order = Order (Column: node) (Desc: bool) (NullsLast: bool)
and caselimb = CaseLimb (When: node) (Then: node)

text \<open>\<open>Binding\<close> is an expression with its result name.\<close>

datatype Binding = Bind (bind_Expr: node) (bind_Result: string)

subsection \<open>Equivalence of nodes\<close>

text \<open>
  \<open>Equals\<close> returns a boolean or panics (\<open>None\<close>): a method call on a \<open>nil\<close> pointer
  or interface. \<open>pand\<close> is the short-circuit \<open>&&\<close> of two such results, \<open>pall2\<close> the loop
  over two slices of one length that returns false at the first pair that differs.
\<close>

definition pand :: "bool option \<Rightarrow> bool option \<Rightarrow> bool option" where
  "pand a b = (case a of None \<Rightarrow> None | Some False \<Rightarrow> Some False | Some True \<Rightarrow> b)"

fun pall2 :: "('a \<Rightarrow> 'b \<Rightarrow> bool option) \<Rightarrow> 'a list \<Rightarrow> 'b list \<Rightarrow> bool option" where
  "pall2 f [] [] = Some True"
| "pall2 f (x # xs) (y # ys) = pand (f x y) (pall2 f xs ys)"
| "pall2 f xs ys = Some False"

lemma pall2_cong [fundef_cong]:
  "xs = xs' \<Longrightarrow> ys = ys' \<Longrightarrow> (\<And>x y. x \<in> set xs' \<Longrightarrow> y \<in> set ys' \<Longrightarrow> f x y = g x y)
   \<Longrightarrow> pall2 f xs ys = pall2 g xs' ys'"
proof (induction xs' arbitrary: xs ys ys')
  case Nil
  then show ?case by (cases ys') simp_all
next
  case (Cons a xs')
  then show ?case by (cases ys') simp_all
qed

text \<open>
  \<open>ion.Bag\<close> is not part of the sources at hand: a bag is the list of its items, and
  two bags are equal when their items are, in order.
\<close>

definition Bag_Equals :: "datum list \<Rightarrow> datum list \<Rightarrow> bool" where
  "Bag_Equals a b = (a = b)"

text \<open>
  One equation for the \<open>Equals\<close> method of each node type. \<open>slices.EqualFunc\<close>
  compares the lengths first. \<open>Equivalent\<close> first compares the two interface values
  with \<open>==\<close>, which holds for two pointers to one object; the model has values and
  no objects, and for the nodes that are values in the source (\<open>Ident\<close>, \<open>Integer\<close>,
  \<open>Star\<close>, ...) \<open>==\<close> holds exactly where \<open>Equals\<close> does, so \<open>Equivalent\<close> is
  \<open>Equals\<close>, except where an operand is \<open>nil\<close>: two \<open>nil\<close>s are equivalent, a \<open>nil\<close>
  receiver panics, and a \<open>nil\<close> argument is equal to no node. \<open>Order.Equals\<close> (its
  file is not at hand) compares the two flags and the columns.
\<close>

function Equals :: "node \<Rightarrow> node \<Rightarrow> bool option" where
  "Equals (Lit c) e = (case e of Lit ec \<Rightarrow> Some (const_Equals c ec) | _ \<Rightarrow> Some False)"
| "Equals (Ident i) x = (case x of Ident i2 \<Rightarrow> Some (i = i2) | _ \<Rightarrow> Some False)"
| "Equals (Dot inner field) x =
     (case x of
        Dot inner2 field2 \<Rightarrow> if field2 = field then Equals inner inner2 else Some False
      | _ \<Rightarrow> Some False)"
| "Equals (Index inner offset) x =
     (case x of
        Index inner2 offset2 \<Rightarrow> if offset = offset2 then Equals inner inner2 else Some False
      | _ \<Rightarrow> Some False)"
| "Equals Star e = (case e of Star \<Rightarrow> Some True | _ \<Rightarrow> Some False)"
| "Equals Missing x = (case x of Missing \<Rightarrow> Some True | _ \<Rightarrow> Some False)"
| "Equals (Aggregate (Aggr op precision inner over fil)) e =
     (case e of
        Aggregate ea \<Rightarrow>
          (case ea of Aggr eop eprecision einner eover efilter \<Rightarrow>
             if eop \<noteq> op \<or> (inner = None) \<noteq> (einner = None) then Some False
             else pand
               (case inner of
                  None \<Rightarrow> Some True
                | Some i \<Rightarrow> (case einner of None \<Rightarrow> Some True | Some ei \<Rightarrow> Equals i ei))
               (if eprecision \<noteq> precision then Some False
                else if (fil \<noteq> None) \<noteq> (efilter \<noteq> None) then Some False
                else pand
                  (case fil of
                     None \<Rightarrow> Some True
                   | Some fl \<Rightarrow> (case efilter of None \<Rightarrow> Some True | Some efl \<Rightarrow> Equals fl efl))
                  (case over of
                     None \<Rightarrow> Some (eover = None)
                   | Some w \<Rightarrow>
                       (case eover of
                          None \<Rightarrow> None
                        | Some ew \<Rightarrow>
                            pand
                              (if length (PartitionBy w) \<noteq> length (PartitionBy ew) then Some False
                               else pall2 (\<lambda>a b. Equals a b) (PartitionBy w) (PartitionBy ew))
                              (if length (OrderBy_of w) \<noteq> length (OrderBy_of ew) then Some False
                               else pall2
                                 (\<lambda>a b. if Desc a = Desc b \<and> NullsLast a = NullsLast b
                                        then Equals (Column a) (Column b) else Some False)
                                 (OrderBy_of w) (OrderBy_of ew))))))
      | _ \<Rightarrow> Some False)"
| "Equals (Member arg set1) e =
     (case e of
        Member earg eset \<Rightarrow>
          if length eset \<noteq> length set1 then Some False
          else pand (Equals arg earg) (Some (Bag_Equals set1 eset))
      | _ \<Rightarrow> Some False)"
| "Equals (Lookup expr else1 keys vals) e =
     (case e of
        Lookup expr2 else2 keys2 vals2 \<Rightarrow>
          pand (Equals expr expr2)
            (pand
              (case else1 of
                 None \<Rightarrow> (case else2 of None \<Rightarrow> Some True | Some b \<Rightarrow> None)
               | Some a \<Rightarrow> (case else2 of None \<Rightarrow> Some False | Some b \<Rightarrow> Equals a b))
              (Some (Bag_Equals keys keys2 \<and> Bag_Equals vals vals2)))
      | _ \<Rightarrow> Some False)"
| "Equals (Comparison op left right) x =
     (case x of
        Comparison eop eleft eright \<Rightarrow>
          if eop = op then pand (Equals left eleft) (Equals right eright) else Some False
      | _ \<Rightarrow> Some False)"
| "Equals (StringMatch op expr pattern escape) x =
     (case x of
        StringMatch oop oexpr opattern oescape \<Rightarrow>
          if oop = op
          then pand (Equals oexpr expr) (Some (opattern = pattern \<and> oescape = escape))
          else Some False
      | _ \<Rightarrow> Some False)"
| "Equals (Not_expr expr) x =
     (case x of Not_expr xexpr \<Rightarrow> Equals expr xexpr | _ \<Rightarrow> Some False)"
| "Equals (Logical op left right) x =
     (case x of
        Logical xop xleft xright \<Rightarrow>
          if op = xop then pand (Equals left xleft) (Equals right xright) else Some False
      | _ \<Rightarrow> Some False)"
| "Equals (Builtin func text1 args) x =
     (case x of
        Builtin xfunc xtext xargs \<Rightarrow>
          if func = xfunc \<and> length args = length xargs
          then pall2 (\<lambda>a b. Equals a b) args xargs else Some False
      | _ \<Rightarrow> Some False)"
| "Equals (UnaryArith op child) x =
     (case x of
        UnaryArith xop xchild \<Rightarrow> if op = xop then Equals child xchild else Some False
      | _ \<Rightarrow> Some False)"
| "Equals (Arithmetic op left right) x =
     (case x of
        Arithmetic xop xleft xright \<Rightarrow>
          if op = xop then pand (Equals left xleft) (Equals right xright) else Some False
      | _ \<Rightarrow> Some False)"
| "Equals (Appended vals) x =
     (case x of
        Appended vals2 \<Rightarrow>
          if length vals \<noteq> length vals2 then Some False
          else pall2 (\<lambda>a b. Equals a b) vals vals2
      | _ \<Rightarrow> Some False)"
| "Equals (IsKey expr key) x =
     (case x of
        IsKey xexpr xkey \<Rightarrow> if key = xkey then Equals expr xexpr else Some False
      | _ \<Rightarrow> Some False)"
| "Equals (Case limbs else1 valence) e =
     (case e of
        Case olimbs oelse ovalence \<Rightarrow>
          if length limbs \<noteq> length olimbs then Some False
          else if (else1 \<noteq> None) \<noteq> (oelse \<noteq> None) then Some False
          else pand
            (pall2 (\<lambda>l ol. pand (Equals (When l) (When ol)) (Equals (Then l) (Then ol)))
               limbs olimbs)
            (case else1 of
               None \<Rightarrow> Some True
             | Some c \<Rightarrow> (case oelse of None \<Rightarrow> Some True | Some oc \<Rightarrow> Equals c oc))
      | _ \<Rightarrow> Some False)"
| "Equals (Cast frm to) e =
     (case e of
        Cast efrm eto \<Rightarrow> if to = eto then Equals frm efrm else Some False
      | _ \<Rightarrow> Some False)"
| "Equals (Unpivot tupleref as1 at1) brhs =
     (case brhs of
        Unpivot rref ras rat \<Rightarrow>
          if as1 \<noteq> ras then Some False
          else if at1 \<noteq> rat then Some False
          else Equals tupleref rref
      | _ \<Rightarrow> Some False)"
| "Equals (Union_expr ty left right) n =
     (case n of
        Union_expr ty2 left2 right2 \<Rightarrow>
          if ty = ty2 then pand (Equals left left2) (Equals right right2) else Some False
      | _ \<Rightarrow> Some False)"
  by pat_completeness auto

lemma size_list_mem: "x \<in> set xs \<Longrightarrow> f x \<le> size_list f xs"
  by (induction xs) auto

lemma size_When: "size (When l) < size l" and size_Then: "size (Then l) < size l"
  by (cases l; simp)+

lemma size_Column: "size (Column o1) < size o1"
  by (cases o1) simp

lemma size_PartitionBy: "size_list size (PartitionBy w) < size w"
  and size_OrderBy_of: "size_list size (OrderBy_of w) < size w"
  by (cases w; simp)+

termination Equals
  apply (relation "measure (\<lambda>(a, b). size a + size b)")
                      apply simp_all
  subgoal for op precision inner over fil e x7 x2 x3 x4 x5 w ew x y
    using size_list_mem [of x "PartitionBy w" size] size_list_mem [of y "PartitionBy ew" size]
      size_PartitionBy [of w] size_PartitionBy [of ew]
    by linarith
  subgoal for op precision inner over fil e x7 x2 x3 x4 x5 w ew x y
    using size_list_mem [of x "OrderBy_of w" size] size_list_mem [of y "OrderBy_of ew" size]
      size_OrderBy_of [of w] size_OrderBy_of [of ew] size_Column [of x] size_Column [of y]
    by linarith
  subgoal for func args x xtext xargs a b
    using size_list_mem [of a args size] size_list_mem [of b xargs size] by linarith
  subgoal for vals x vals2 a b
    using size_list_mem [of a vals size] size_list_mem [of b vals2 size] by linarith
  subgoal for limbs else1 e olimbs oelse ovalence l ol
    using size_list_mem [of l limbs size] size_list_mem [of ol olimbs size]
      size_When [of l] size_When [of ol]
    by linarith
  subgoal for limbs else1 e olimbs oelse ovalence l ol
    using size_list_mem [of l limbs size] size_list_mem [of ol olimbs size]
      size_Then [of l] size_Then [of ol]
    by linarith
  done

text \<open>\<open>Equivalent\<close> and \<open>Equal\<close> on operands that are not \<open>nil\<close>.\<close>

definition Equivalent :: "node \<Rightarrow> node \<Rightarrow> bool option" where
  "Equivalent a b = Equals a b"

subsection \<open>Paths\<close>

text \<open>
  \<open>IsPath\<close>: the expression is made of \<open>Ident\<close>, \<open>Dot\<close> and \<open>Index\<close> only.
  \<open>MakePath\<close> reads \<open>path[0]\<close> first, which panics on an empty slice. \<open>FlatPath\<close>
  returns the components and \<open>true\<close>, or \<open>nil\<close> and \<open>false\<close> where the expression
  "is not a path or the path cannot be flattened": it has no case for \<open>Index\<close>.
\<close>

fun IsPath :: "node \<Rightarrow> bool" where
  "IsPath (Ident i) = True"
| "IsPath (Dot inner field) = IsPath inner"
| "IsPath (Index inner offset) = IsPath inner"
| "IsPath e = False"

definition MakePath :: "string list \<Rightarrow> error + node" where
  "MakePath path =
     (case path of
        [] \<Rightarrow> Inl (Panic ''index out of range'')
      | p0 # rest \<Rightarrow> Inr (foldl (\<lambda>p field. Dot p field) (Ident p0) rest))"

fun FlatPath :: "node \<Rightarrow> string list \<times> bool" where
  "FlatPath (Ident e) = ([e], True)"
| "FlatPath (Dot inner field) =
     (case FlatPath inner of (fields, ok) \<Rightarrow>
        if ok then (fields @ [field], True) else ([], False))"
| "FlatPath e = ([], False)"

text \<open>The paths that \<open>FlatPath\<close> flattens: identifiers and dots only.\<close>

fun IsDotPath :: "node \<Rightarrow> bool" where
  "IsDotPath (Ident i) = True"
| "IsDotPath (Dot inner field) = IsDotPath inner"
| "IsDotPath e = False"

subsection \<open>Simplification of an index expression\<close>

text \<open>
  Reading \<open>xs[i]\<close> of a slice panics unless \<open>0 \<le> i < len(xs)\<close>.
  \<open>(*Index).simplify\<close> tests only \<open>i.Offset < len(...)\<close> before it reads. The
  builtin op \<open>MakeList\<close> is declared in a file that is not at hand and is a
  parameter here.
\<close>

definition slice_index :: "'a list \<Rightarrow> go_int \<Rightarrow> error + 'a" where
  "slice_index xs i =
     (if 0 \<le> sint i \<and> sint i < int (length xs) then Inr (xs ! nat (sint i))
      else Inl (Panic ''index out of range''))"

definition Index_simplify :: "BuiltinOp \<Rightarrow> node \<Rightarrow> go_int \<Rightarrow> error + node" where
  "Index_simplify MakeList inner offset =
     (let otherwise =
        (case inner of
           Lit (List vals) \<Rightarrow>
             if sint offset < int (length vals) then slice_index (map Lit vals) offset
             else Inr Missing
         | _ \<Rightarrow> Inr (Index inner offset))
      in case inner of
           Builtin func text1 args \<Rightarrow>
             if func = MakeList
             then (if sint offset < int (length args) then slice_index args offset
                   else Inr Missing)
             else otherwise
         | _ \<Rightarrow> otherwise)"

subsection \<open>Plan steps and ops (packages pir, vm and plan)\<close>

text \<open>
  \<open>vm.AggBinding\<close> binds an aggregate expression to its result name; a
  \<open>vm.Aggregation\<close> is a slice of them, a \<open>vm.Selection\<close> a slice of bindings.
\<close>

datatype AggBinding = AggBinding (Expr: aggregate) (Result: string)

type_synonym Aggregation = "AggBinding list"
type_synonym Selection = "Binding list"

text \<open>
  The steps of package \<open>pir\<close> that lowering reads: \<open>pir.Limit\<close> has a count and an
  offset, \<open>pir.Aggregate\<close> the aggregates and the grouping, which is \<open>nil\<close> (\<open>None\<close>)
  without a \<open>GROUP BY\<close>.
\<close>

datatype pir_Limit = pir_Limit (Count: "64 word") (Offset: "64 word")

datatype pir_Aggregate = pir_Aggregate (Agg: Aggregation) (GroupBy: "Selection option")

datatype SortColumn = SortColumn (sort_Node: node) (sort_Desc: bool) (sort_NullsLast: bool)

datatype HashOrder = HashOrder (ho_Column: go_int) (ho_Desc: bool) (ho_NullsLast: bool)

text \<open>
  The physical ops that lowering builds, with the fields it sets. Every nonterminal
  has its upstream op \<open>From\<close> first.
\<close>

datatype Op =
    Leaf node
  | NoOutput
  | DummyOutput
  | Filter Op node
  | Distinct Op "node list" "64 word"
  | Limit Op "64 word"
  | OrderBy Op "SortColumn list" go_int go_int
  | HashAggregate Op Aggregation Aggregation Selection "HashOrder list" go_int
  | SimpleAggregate Op Aggregation
  | CountStar Op string
  | Project Op "Binding list"
  | Unnest Op node string
  | UnionMap Op
  | UnionPartition Op "string list"
  | Substitute Op "Op list"
  | OutputPart Op string
  | OutputIndex Op string string string
  | Unpivot_op Op "string option" "string option"
  | UnpivotAtDistinct Op string

section \<open>Plan lowering\<close>

text \<open>
  \<open>lowerLimit\<close>: a zero count yields \<open>NoOutput\<close> before anything else is looked at.
  A hash aggregate, an order-by and a distinct take the limit themselves (the source
  updates the op in place and returns it); anything else gets a \<open>Limit\<close> op on top.
\<close>

fun lowerLimit :: "pir_Limit \<Rightarrow> Op \<Rightarrow> error + Op" where
  "lowerLimit inp frm =
     (if Count inp = 0 then Inr NoOutput
      else case frm of
        HashAggregate f agg windows by ord l0 \<Rightarrow>
          if Offset inp \<noteq> 0 then Inl (reject ''non-zero OFFSET of hash aggregate result'')
          else Inr (HashAggregate f agg windows by ord (Count inp))
      | OrderBy f columns l0 o0 \<Rightarrow>
          Inr (OrderBy f columns (Count inp) (Offset inp))
      | Distinct f flds l0 \<Rightarrow>
          if Offset inp \<noteq> 0 then Inl (reject ''non-zero OFFSET of distinct result'')
          else Inr (Distinct f flds (Count inp))
      | _ \<Rightarrow>
          if Offset inp \<noteq> 0
          then Inl (reject ''OFFSET without GROUP BY/ORDER BY not implemented'')
          else Inr (Limit frm (Count inp)))"

text \<open>
  \<open>iscountstar\<close>: the aggregation is one \<open>COUNT\<close> with no filter whose argument is
  the star. \<open>WindowOnly\<close>: the op is valid only as a window function.
\<close>

definition iscountstar :: "Aggregation \<Rightarrow> bool" where
  "iscountstar a =
     (if length a \<noteq> 1 then False
      else let agg = a ! 0 in
        if agg_Op (Expr agg) \<noteq> OpCount then False
        else if agg_Filter (Expr agg) \<noteq> None then False
        else agg_Inner (Expr agg) = Some Star)"

definition WindowOnly :: "AggregateOp \<Rightarrow> bool" where
  "WindowOnly a = (a = OpRowNumber \<or> a = OpRank \<or> a = OpDenseRank)"

text \<open>
  \<open>splitWindows\<close> walks the list once and appends each element to one of two
  results. In the source \<open>agg\<close> starts as \<open>lst[:0]\<close> and shares the array of \<open>lst\<close>;
  an append to it writes at an index that the loop has read already, so the elements
  read are those of the argument.
\<close>

fun splitWindows_loop ::
  "Aggregation \<Rightarrow> Aggregation \<Rightarrow> Aggregation \<Rightarrow> Aggregation \<times> Aggregation" where
  "splitWindows_loop [] agg window = (agg, window)"
| "splitWindows_loop (x # xs) agg window =
     (if WindowOnly (agg_Op (Expr x)) then splitWindows_loop xs agg (window @ [x])
      else splitWindows_loop xs (agg @ [x]) window)"

definition splitWindows :: "Aggregation \<Rightarrow> Aggregation \<times> Aggregation" where
  "splitWindows lst = splitWindows_loop lst [] []"

text \<open>
  \<open>lowerAggregate\<close>: without a grouping (\<open>in.GroupBy == nil\<close>) the step is a
  \<open>CountStar\<close> or a \<open>SimpleAggregate\<close>; with one it is a \<open>HashAggregate\<close> over the split
  list, with no order and no limit yet.
\<close>

definition lowerAggregate :: "pir_Aggregate \<Rightarrow> Op \<Rightarrow> error + Op" where
  "lowerAggregate inp frm =
     (case GroupBy inp of
        None \<Rightarrow>
          if iscountstar (Agg inp) then Inr (CountStar frm (Result (Agg inp ! 0)))
          else Inr (SimpleAggregate frm (Agg inp))
      | Some by \<Rightarrow>
          (case splitWindows (Agg inp) of
             (agg, windows) \<Rightarrow> Inr (HashAggregate frm agg windows by [] 0)))"

section \<open>Predicate decomposition\<close>

definition And :: "node \<Rightarrow> node \<Rightarrow> node" where
  "And left right = Logical OpAnd left right"

text \<open>
  \<open>conjunctions\<close> appends the top-level conjunctions of an expression to \<open>lst\<close>: for
  an \<open>AND\<close> it calls itself on the right operand first and hands the result to the call
  on the left operand.
\<close>

fun conjunctions :: "node \<Rightarrow> node list \<Rightarrow> node list" where
  "conjunctions (Logical op left right) lst =
     (if op \<noteq> OpAnd then lst @ [Logical op left right]
      else conjunctions left (conjunctions right lst))"
| "conjunctions e lst = lst @ [e]"

text \<open>
  The decomposition in the words of the specification: the conjunctions of the left
  operand, followed by those of the right operand.
\<close>

fun conjunctions_spec :: "node \<Rightarrow> node list" where
  "conjunctions_spec (Logical op x y) =
     (if op = OpAnd then conjunctions_spec x @ conjunctions_spec y else [Logical op x y])"
| "conjunctions_spec e = [e]"


section \<open>Input deduplication\<close>

text \<open>
  An \<open>input\<close> is a table expression with the hints for it and, once it is statted, its
  handle. \<open>Hints\<close> are the filter (or \<open>nil\<close>), the fields and the all-fields flag.
\<close>

type_synonym TableHandle = nat

record Hints =
  Filter_hint :: "node option"
  Fields_hint :: "string list"
  AllFields_hint :: bool

record input =
  table :: node
  hints :: Hints
  handle :: "TableHandle option"

text \<open>
  \<open>conjoin\<close> reads \<open>x[0]\<close> and folds \<open>And\<close> over the rest. \<open>canRemoveHint\<close>: a
  logical node is removable when both operands are; a comparison when neither operand
  is a timestamp literal; every other node is.
\<close>

fun conjoin :: "node list \<Rightarrow> error + node" where
  "conjoin [] = Inl (Panic ''index out of range'')"
| "conjoin (o1 # rest) = Inr (foldl And o1 rest)"

definition isTimestamp :: "node \<Rightarrow> bool" where
  "isTimestamp e = (case e of Lit (Timestamp t) \<Rightarrow> True | _ \<Rightarrow> False)"

fun canRemoveHint :: "node \<Rightarrow> bool" where
  "canRemoveHint (Logical op left right) = (canRemoveHint left \<and> canRemoveHint right)"
| "canRemoveHint (Comparison op left right) = (\<not> (isTimestamp left \<or> isTimestamp right))"
| "canRemoveHint e = True"

text \<open>
  \<open>mergeFilterHint\<close>. The statement \<open>xs[i], xs = xs[len(xs)-1], xs[:len(xs)-1]\<close>
  is \<open>swap_remove\<close>; \<open>find_equiv\<close> is the inner loop over \<open>yconj\<close>, which stops at
  the first \<open>j\<close> with \<open>Equivalent(yconj[j], v)\<close>; \<open>overlap_loop\<close> is the outer loop,
  whose result is \<open>None\<close> where the source returns \<open>false\<close> from inside it and the
  final \<open>xconj\<close>, \<open>yconj\<close>, \<open>overlap\<close> and \<open>i\<close> otherwise. A panic of \<open>Equals\<close> is
  an error.
\<close>

definition swap_remove :: "'a list \<Rightarrow> nat \<Rightarrow> 'a list" where
  "swap_remove xs i = butlast (xs[i := last xs])"

fun find_equiv :: "node list \<Rightarrow> node \<Rightarrow> nat \<Rightarrow> error + nat option" where
  "find_equiv [] v j = Inr None"
| "find_equiv (y # ys) v j =
     (case Equivalent y v of
        None \<Rightarrow> Inl (Panic ''nil pointer dereference'')
      | Some True \<Rightarrow> Inr (Some j)
      | Some False \<Rightarrow> find_equiv ys v (Suc j))"

function overlap_loop ::
  "node list \<Rightarrow> node list \<Rightarrow> node list \<Rightarrow> nat
   \<Rightarrow> error + (node list \<times> node list \<times> node list \<times> nat) option" where
  "overlap_loop xconj yconj overlap i =
     (if i < length xconj \<and> length yconj > 0
      then (case find_equiv yconj (xconj ! i) 0 of
              Inl e \<Rightarrow> Inl e
            | Inr (Some j) \<Rightarrow>
                overlap_loop (swap_remove xconj i) (swap_remove yconj j)
                  (overlap @ [xconj ! i]) i
            | Inr None \<Rightarrow>
                if \<not> canRemoveHint (xconj ! i) then Inr None
                else overlap_loop xconj yconj overlap (i + 1))
      else Inr (Some (xconj, yconj, overlap, i)))"
  by pat_completeness auto
termination
  by (relation "measure (\<lambda>(xconj, yconj, overlap, i). length xconj - i)")
     (auto simp: swap_remove_def)

declare overlap_loop.simps [simp del]

definition hint_conjunctions :: "input \<Rightarrow> node list" where
  "hint_conjunctions x =
     (case Filter_hint (hints x) of None \<Rightarrow> [] | Some f \<Rightarrow> conjunctions f [])"

definition mergeFilterHint :: "input \<Rightarrow> input \<Rightarrow> error + bool \<times> input" where
  "mergeFilterHint x y =
     (case overlap_loop (hint_conjunctions x) (hint_conjunctions y) [] 0 of
        Inl e \<Rightarrow> Inl e
      | Inr None \<Rightarrow> Inr (False, x)
      | Inr (Some (xconj, yconj, overlap, i)) \<Rightarrow>
          if \<not> list_all canRemoveHint (drop i xconj) then Inr (False, x)
          else if \<not> list_all canRemoveHint yconj then Inr (False, x)
          else if length overlap > 0
          then (case conjoin overlap of
                  Inl e \<Rightarrow> Inl e
                | Inr f \<Rightarrow> Inr (True, x \<lparr>hints := (hints x) \<lparr>Filter_hint := Some f\<rparr>\<rparr>))
          else Inr (True, x \<lparr>hints := (hints x) \<lparr>Filter_hint := None\<rparr>\<rparr>))"

text \<open>
  \<open>(*input).merge\<close>: the table expressions must be equal and the filters must merge;
  then the handle is cleared and the fields are joined, sorted and compacted, unless
  one side wants all fields.
\<close>

definition merge :: "input \<Rightarrow> input \<Rightarrow> error + bool \<times> input" where
  "merge i inp =
     (case Equals (table i) (table inp) of
        None \<Rightarrow> Inl (Panic ''nil pointer dereference'')
      | Some False \<Rightarrow> Inr (False, i)
      | Some True \<Rightarrow>
          (case mergeFilterHint i inp of
             Inl e \<Rightarrow> Inl e
           | Inr (False, i1) \<Rightarrow> Inr (False, i1)
           | Inr (True, i1) \<Rightarrow>
               (let i2 = i1 \<lparr>handle := None\<rparr> in
                if AllFields_hint (hints i2) then Inr (True, i2)
                else if AllFields_hint (hints inp)
                then Inr (True, i2 \<lparr>hints := (hints i2) \<lparr>Fields_hint := [], AllFields_hint := True\<rparr>\<rparr>)
                else Inr (True, i2 \<lparr>hints := (hints i2)
                       \<lparr>Fields_hint := remdups_adj (sort (Fields_hint (hints i2) @ Fields_hint (hints inp)))\<rparr>\<rparr>))))"

text \<open>
  \<open>(*walker).put\<close>: the new input is merged into the first slot that takes it, or
  appended. \<open>put_loop\<close> is the loop over the slots; its result is the slots and the index
  of the one merged into, or \<open>None\<close> when no slot took the input.
\<close>

record walker =
  inputs :: "input list"
  latest :: int

fun put_loop :: "input list \<Rightarrow> input \<Rightarrow> nat \<Rightarrow> error + (input list \<times> nat) option" where
  "put_loop [] inp i = Inr None"
| "put_loop (x # xs) inp i =
     (case merge x inp of
        Inl e \<Rightarrow> Inl e
      | Inr (True, x') \<Rightarrow> Inr (Some (x' # xs, i))
      | Inr (False, x') \<Rightarrow>
          (case put_loop xs inp (Suc i) of
             Inl e \<Rightarrow> Inl e
           | Inr None \<Rightarrow> Inr None
           | Inr (Some (xs', k)) \<Rightarrow> Inr (Some (x' # xs', k))))"

definition put :: "walker \<Rightarrow> input \<Rightarrow> error + walker" where
  "put w inp =
     (case put_loop (inputs w) inp 0 of
        Inl e \<Rightarrow> Inl e
      | Inr (Some (ins, k)) \<Rightarrow> Inr (w \<lparr>inputs := ins, latest := int k\<rparr>)
      | Inr None \<Rightarrow> Inr (w \<lparr>latest := int (length (inputs w)), inputs := inputs w @ [inp]\<rparr>))"

text \<open>
  Examples: a comparison with a timestamp literal, and inputs over one table whose
  filters are \<open>ts < t AND ts < t\<close>, \<open>ts < t\<close>, \<open>ts < t AND b\<close> and \<open>c AND ts < t\<close>.
\<close>

definition ts_cmp :: node where
  "ts_cmp = Comparison 2 (Ident ''ts'') (Lit (Timestamp 0))"

definition in_ts_ts :: input where
  "in_ts_ts = \<lparr>table = Ident ''t'',
     hints = \<lparr>Filter_hint = Some (And ts_cmp ts_cmp), Fields_hint = [''ts''], AllFields_hint = False\<rparr>,
     handle = None\<rparr>"

definition in_ts :: input where
  "in_ts = \<lparr>table = Ident ''t'',
     hints = \<lparr>Filter_hint = Some ts_cmp, Fields_hint = [''ts''], AllFields_hint = False\<rparr>,
     handle = None\<rparr>"

definition in_ts_b :: input where
  "in_ts_b = \<lparr>table = Ident ''t'',
     hints = \<lparr>Filter_hint = Some (And ts_cmp (Ident ''b'')), Fields_hint = [''b'', ''ts''],
              AllFields_hint = False\<rparr>,
     handle = Some 3\<rparr>"

definition in_c_ts :: input where
  "in_c_ts = \<lparr>table = Ident ''t'',
     hints = \<lparr>Filter_hint = Some (And (Ident ''c'') ts_cmp), Fields_hint = [''c'', ''ts''],
              AllFields_hint = False\<rparr>,
     handle = None\<rparr>"

section \<open>Rule engine (package pir)\<close>

text \<open>
  A trace is a chain of steps, each with one parent pointer, and rules update steps
  in place, so the steps live in a store: a step is an address, the store maps it to
  the name of its dynamic type, its parent and the rest of its fields. A rule takes a
  step and the store and returns the store and its two results, a step (or \<open>nil\<close>) and
  a status. \<open>fpoStatus\<close> is an unsigned integer with three named values.
  \<open>fixedPointOptimizer.rules\<close> maps a type name to the rules registered for it;
  \<open>add\<close> appends a rule to the list of the type of its parameter, which comes with the
  rule here (the source reads it from the rule's signature).
\<close>

type_synonym fpoStatus = "64 word"

definition fpoIntact :: fpoStatus where "fpoIntact = 0"
definition fpoUpdate :: fpoStatus where "fpoUpdate = 1"
definition fpoReplace :: fpoStatus where "fpoReplace = 2"

type_synonym addr = nat

record 'p Step =
  tyname :: string
  parent :: "addr option"
  payload :: 'p

type_synonym 'p heap = "addr \<Rightarrow> 'p Step"

type_synonym 'p rule = "addr \<Rightarrow> 'p heap \<Rightarrow> 'p heap \<times> addr option \<times> fpoStatus"

type_synonym 'p fixedPointOptimizer = "string \<Rightarrow> 'p rule list"

text \<open>\<open>add\<close> and \<open>newFixedPointOptimizer\<close>.\<close>

definition fpo_add :: "string \<times> 'p rule \<Rightarrow> 'p fixedPointOptimizer \<Rightarrow> 'p fixedPointOptimizer" where
  "fpo_add r fpo = fpo (fst r := fpo (fst r) @ [snd r])"

definition newFixedPointOptimizer :: "(string \<times> 'p rule) list \<Rightarrow> 'p fixedPointOptimizer" where
  "newFixedPointOptimizer rules = fold fpo_add rules (\<lambda>name. [])"

text \<open>
  \<open>apply\<close>: the rules of the step's type are called in the order of the slice; the
  first status other than \<open>fpoIntact\<close> ends the loop with that rule's result, and
  \<open>(nil, fpoIntact)\<close> is returned when no rule is left. The result of the winning rule
  goes through the type assertion \<open>out[0].Interface().(Step)\<close>, which has no second
  result: it panics when the rule returned \<open>nil\<close> for the step.
\<close>

definition nil_Step :: error where
  "nil_Step = Panic ''interface conversion: interface is nil, not pir.Step''"

fun apply_rules ::
  "'p rule list \<Rightarrow> addr \<Rightarrow> 'p heap \<Rightarrow> error + 'p heap \<times> addr option \<times> fpoStatus" where
  "apply_rules [] s h = Inr (h, None, fpoIntact)"
| "apply_rules (r # rs) s h =
     (case r s h of (h', out0, status) \<Rightarrow>
        if status \<noteq> fpoIntact then
          (case out0 of None \<Rightarrow> Inl nil_Step | Some n \<Rightarrow> Inr (h', Some n, status))
        else apply_rules rs s h')"

definition fpo_apply ::
  "'p fixedPointOptimizer \<Rightarrow> addr \<Rightarrow> 'p heap \<Rightarrow> error + 'p heap \<times> addr option \<times> fpoStatus" where
  "fpo_apply fpo s h = apply_rules (fpo (tyname (h s))) s h"

text \<open>
  Modelled from the spec: the methods \<open>parent\<close> and \<open>setparent\<close> of the interface
  \<open>Step\<close>, whose implementations are not in the source at hand. Each step holds exactly
  one parent pointer: \<open>parent\<close> reads it (the field \<open>parent\<close> of the record) and
  \<open>setparent\<close> overwrites it, leaving the rest of the step and every other step as
  they were.
\<close>

definition setparent :: "'p heap \<Rightarrow> addr \<Rightarrow> addr option \<Rightarrow> 'p heap" where
  "setparent h p n = h (p := (h p) \<lparr>parent := n\<rparr>)"

text \<open>
  \<open>optimize\<close>: \<open>walk\<close> is the inner loop over \<open>s\<close>, with \<open>prev\<close>, the top of the
  trace and the flag \<open>somethingChanged\<close>; it need not end, and a panic of \<open>apply\<close> ends
  it. The \<open>switch\<close> has a case for each named status and no default: any other status
  leaves \<open>s\<close>, \<open>prev\<close> and the flag as they are. The outer loop runs the inner one from
  the top, with no \<open>prev\<close> and the flag cleared, until it leaves the flag cleared.
\<close>

partial_function (option) walk ::
  "'p fixedPointOptimizer \<Rightarrow> 'p heap \<Rightarrow> addr option \<Rightarrow> addr option \<Rightarrow> addr option \<Rightarrow> bool
   \<Rightarrow> (error + 'p heap \<times> addr option \<times> bool) option" where
  "walk fpo h btop prev s somethingChanged =
     (case s of
        None \<Rightarrow> Some (Inr (h, btop, somethingChanged))
      | Some a \<Rightarrow>
          (case fpo_apply fpo a h of
             Inl e \<Rightarrow> Some (Inl e)
           | Inr (h', n, status) \<Rightarrow>
               if status = fpoUpdate then walk fpo h' btop prev (Some a) True
               else if status = fpoReplace then
                 (case prev of
                    Some p \<Rightarrow> walk fpo (setparent h' p n) btop prev n True
                  | None \<Rightarrow> walk fpo h' n prev n True)
               else if status = fpoIntact then
                 walk fpo h' btop (Some a) (parent (h' a)) somethingChanged
               else walk fpo h' btop prev (Some a) somethingChanged))"

partial_function (option) optimize ::
  "'p fixedPointOptimizer \<Rightarrow> 'p heap \<Rightarrow> addr option \<Rightarrow> (error + 'p heap \<times> addr option) option" where
  "optimize fpo h btop =
     Option.bind (walk fpo h btop None btop False)
       (\<lambda>r. case r of
          Inl e \<Rightarrow> Some (Inl e)
        | Inr (h', btop', somethingChanged) \<Rightarrow>
            if somethingChanged then optimize fpo h' btop' else Some (Inr (h', btop')))"

text \<open>The outer loop, cut off after a number of passes.\<close>

fun run_passes ::
  "nat \<Rightarrow> 'p fixedPointOptimizer \<Rightarrow> 'p heap \<Rightarrow> addr option \<Rightarrow> (error + 'p heap \<times> addr option) option" where
  "run_passes 0 fpo h btop = None"
| "run_passes (Suc k) fpo h btop =
     (case walk fpo h btop None btop False of
        None \<Rightarrow> None
      | Some (Inl e) \<Rightarrow> Some (Inl e)
      | Some (Inr (h', btop', somethingChanged)) \<Rightarrow>
          if somethingChanged then run_passes k fpo h' btop' else Some (Inr (h', btop')))"

text \<open>
  An example: a trace \<open>Limit\<close>, \<open>Filter\<close>, \<open>Distinct\<close> over a table, from the top
  down. One rule clears a field that is not zero and reports an update; another
  replaces a step whose field is zero by its parent. Both are registered for
  \<open>*pir.Limit\<close>, the second one for \<open>*pir.Distinct\<close> too.
\<close>

definition ex_heap :: "nat heap" where
  "ex_heap = (\<lambda>a. \<lparr>tyname = ''*pir.IterTable'', parent = None, payload = 0\<rparr>)
     (10 := \<lparr>tyname = ''*pir.Limit'', parent = Some 20, payload = 7\<rparr>,
      20 := \<lparr>tyname = ''*pir.Filter'', parent = Some 30, payload = 3\<rparr>,
      30 := \<lparr>tyname = ''*pir.Distinct'', parent = Some 40, payload = 0\<rparr>)"

definition ex_rule :: "nat rule" where
  "ex_rule s h = (if payload (h s) = 0 then (h, None, fpoIntact)
                  else (h (s := (h s) \<lparr>payload := 0\<rparr>), Some s, fpoUpdate))"

definition ex_drop :: "nat rule" where
  "ex_drop s h = (if payload (h s) = 0 then (h, parent (h s), fpoReplace)
                  else (h, None, fpoIntact))"

definition ex_fpo :: "nat fixedPointOptimizer" where
  "ex_fpo = newFixedPointOptimizer
     [(''*pir.Limit'', ex_rule), (''*pir.Distinct'', ex_drop), (''*pir.Limit'', ex_drop)]"

text \<open>
  Two rules of the validated signature that report a change and return no step: one
  updates the step in place, the other asks for a replacement.
\<close>

definition ex_nil_update :: "nat rule" where
  "ex_nil_update s h = (h (s := (h s) \<lparr>payload := 0\<rparr>), None, fpoUpdate)"

definition ex_nil_replace :: "nat rule" where
  "ex_nil_replace s h = (h, None, fpoReplace)"

section \<open>Theorems\<close>

subsection \<open>Lowering a limit\<close>

text \<open>
  C10. Lowering a \<open>Limit\<close> step whose count is zero yields \<open>NoOutput\<close>, for every
  op below and every offset: the upstream plan is dropped and a non-zero offset is
  not rejected.
\<close>

theorem lowerLimit_zero_count:
  "lowerLimit (pir_Limit 0 off) frm = Inr NoOutput"
  by simp

text \<open>
  C6. Lowering a \<open>Limit\<close> step with a non-zero count: below a hash aggregate or a
  distinct, the result is an error exactly when the offset is non-zero, and otherwise
  that op with the count as its limit; below an order-by the count and the offset,
  zero or not, go into the order-by and there is no error; below any other op a
  non-zero offset is an error and a zero offset gives a \<open>Limit\<close> op.
\<close>

theorem lowerLimit_nonzero_count:
  assumes "c \<noteq> 0"
  shows "lowerLimit (pir_Limit c off) (HashAggregate f agg windows by ord l0) =
           (if off \<noteq> 0 then Inl (ErrNotSupported ''non-zero OFFSET of hash aggregate result'')
            else Inr (HashAggregate f agg windows by ord c))
       \<and> lowerLimit (pir_Limit c off) (Distinct f flds l1) =
           (if off \<noteq> 0 then Inl (ErrNotSupported ''non-zero OFFSET of distinct result'')
            else Inr (Distinct f flds c))
       \<and> isl (lowerLimit (pir_Limit c off) (HashAggregate f agg windows by ord l0)) = (off \<noteq> 0)
       \<and> isl (lowerLimit (pir_Limit c off) (Distinct f flds l1)) = (off \<noteq> 0)
       \<and> lowerLimit (pir_Limit c off) (OrderBy f columns l2 o2) = Inr (OrderBy f columns c off)
       \<and> ((\<nexists>f agg windows by ord l0. frm = HashAggregate f agg windows by ord l0) \<and>
          (\<nexists>f columns l0 o0. frm = OrderBy f columns l0 o0) \<and>
          (\<nexists>f flds l0. frm = Distinct f flds l0) \<longrightarrow>
          lowerLimit (pir_Limit c off) frm =
            (if off \<noteq> 0
             then Inl (ErrNotSupported ''OFFSET without GROUP BY/ORDER BY not implemented'')
             else Inr (Limit frm c)))"
  using assms by (auto simp: reject_def split: Op.splits)

theorem lowerLimit_nonzero_count_witness:
  "lowerLimit (pir_Limit 5 1) (HashAggregate (Leaf (Ident ''t'')) [] [] [] [] 0) =
     Inl (ErrNotSupported ''non-zero OFFSET of hash aggregate result'')
   \<and> lowerLimit (pir_Limit 5 1) (Distinct (Leaf (Ident ''t'')) [] 0) =
     Inl (ErrNotSupported ''non-zero OFFSET of distinct result'')
   \<and> lowerLimit (pir_Limit 5 1) (OrderBy (Leaf (Ident ''t'')) [] 0 0) =
       Inr (OrderBy (Leaf (Ident ''t'')) [] 5 1)
   \<and> lowerLimit (pir_Limit 5 1) (Leaf (Ident ''t'')) =
       Inl (ErrNotSupported ''OFFSET without GROUP BY/ORDER BY not implemented'')"
proof -
  have c: "(5 :: 64 word) \<noteq> 0" by simp
  show ?thesis
    using lowerLimit_nonzero_count [OF c, of 1 "Leaf (Ident ''t'')" "[]" "[]" "[]" "[]" 0
        "[]" 0 "[]" 0 0 "Leaf (Ident ''t'')"]
    by simp
qed

subsection \<open>Lowering an aggregate\<close>

lemma splitWindows_loop_filter:
  "splitWindows_loop xs agg window =
     (agg @ filter (\<lambda>a. \<not> WindowOnly (agg_Op (Expr a))) xs,
      window @ filter (\<lambda>a. WindowOnly (agg_Op (Expr a))) xs)"
  by (induction xs arbitrary: agg window) auto

lemma iscountstar_iff:
  "iscountstar aggs = (\<exists>p ov r. aggs = [AggBinding (Aggr OpCount p (Some Star) ov None) r])"
proof (cases aggs)
  case Nil
  then show ?thesis by (simp add: iscountstar_def)
next
  case (Cons a rest)
  obtain e r where a: "a = AggBinding e r" by (cases a)
  obtain op p i ov fl where e: "e = Aggr op p i ov fl" by (cases e)
  show ?thesis
    using Cons a e by (cases rest) (auto simp: iscountstar_def Let_def)
qed

text \<open>
  C4 (the claim as stated fails). A step without a grouping whose only aggregate is
  the window function \<open>ROW_NUMBER\<close> is lowered to a \<open>SimpleAggregate\<close>, not to a
  \<open>HashAggregate\<close> with the window split off.
\<close>

theorem lowerAggregate_window_counterexample:
  "lowerAggregate
     (pir_Aggregate [AggBinding (Aggr OpRowNumber 0 None (Some (Window [] [])) None) ''rn''] None)
     (Leaf (Ident ''t'')) =
   Inr (SimpleAggregate (Leaf (Ident ''t''))
          [AggBinding (Aggr OpRowNumber 0 None (Some (Window [] [])) None) ''rn''])
   \<and> WindowOnly OpRowNumber"
  by (simp add: lowerAggregate_def iscountstar_def WindowOnly_def OpRowNumber_def OpCount_def)

text \<open>
  C4 (amended). Without a grouping (\<open>GroupBy\<close> is \<open>nil\<close>) the step is lowered to
  \<open>CountStar\<close> when the list is exactly one \<open>COUNT(*)\<close> with no filter, and to a
  \<open>SimpleAggregate\<close> over the whole list otherwise, window aggregates or not. With a
  grouping it is lowered to a \<open>HashAggregate\<close> whose lists are the aggregates that are
  not window-only and those that are, each in the order of the step. This holds for
  every step and every op below.
\<close>

theorem lowerAggregate_cases:
  "lowerAggregate (pir_Aggregate aggs gb) frm =
     (case gb of
        None \<Rightarrow>
          if (\<exists>p ov r. aggs = [AggBinding (Aggr OpCount p (Some Star) ov None) r])
          then Inr (CountStar frm (Result (aggs ! 0)))
          else Inr (SimpleAggregate frm aggs)
      | Some by \<Rightarrow>
          Inr (HashAggregate frm
                 (filter (\<lambda>a. \<not> WindowOnly (agg_Op (Expr a))) aggs)
                 (filter (\<lambda>a. WindowOnly (agg_Op (Expr a))) aggs) by [] 0))"
  by (simp add: lowerAggregate_def splitWindows_def splitWindows_loop_filter
      iscountstar_iff [symmetric] split: option.splits)

subsection \<open>Predicate decomposition\<close>

lemma conjunctions_rev_spec: "conjunctions e lst = lst @ rev (conjunctions_spec e)"
  by (induction e lst rule: conjunctions.induct) simp_all

text \<open>
  C7 (the claim as stated fails). The conjunctions of \<open>a AND b\<close> are \<open>[b, a]\<close>: those
  of the right operand come first.
\<close>

theorem conjunctions_order_counterexample:
  "conjunctions (And (Ident ''a'') (Ident ''b'')) [] = [Ident ''b'', Ident ''a'']
   \<and> conjunctions (And (Ident ''a'') (Ident ''b'')) [] \<noteq>
       [] @ conjunctions (Ident ''a'') [] @ conjunctions (Ident ''b'') []"
  by (simp add: And_def)

text \<open>
  C7 (amended). For \<open>and(x, y)\<close> the result is the accumulator, then the
  conjunctions of \<open>y\<close>, then the conjunctions of \<open>x\<close>; for an expression that is not
  an \<open>AND\<close> it is the accumulator and that expression. For every expression and
  accumulator, the result is the accumulator followed by the decomposition of the
  specification in reverse.
\<close>

theorem conjunctions_cases:
  "conjunctions (And x y) lst = lst @ conjunctions y [] @ conjunctions x []
   \<and> ((\<nexists>x y. e = And x y) \<longrightarrow> conjunctions e lst = lst @ [e])
   \<and> conjunctions e lst = lst @ rev (conjunctions_spec e)"
proof -
  have "(\<nexists>x y. e = And x y) \<longrightarrow> conjunctions e lst = lst @ [e]"
    by (cases e) (auto simp: And_def)
  then show ?thesis
    by (simp add: conjunctions_rev_spec And_def)
qed

theorem conjunctions_cases_witness:
  "conjunctions (And (Ident ''a'') (And (Ident ''b'') (Ident ''c''))) [Ident ''z''] =
     [Ident ''z'', Ident ''c'', Ident ''b'', Ident ''a'']
   \<and> conjunctions (Ident ''a'') [Ident ''z''] = [Ident ''z'', Ident ''a'']"
proof -
  have "\<nexists>x y. Ident ''a'' = And x y" by (simp add: And_def)
  then show ?thesis
    using conjunctions_cases [of "Ident ''a''" "And (Ident ''b'') (Ident ''c'')" "[Ident ''z'']"
        "Ident ''a''"]
    by (simp add: And_def)
qed

subsection \<open>Paths\<close>

lemma FlatPath_MakePath:
  "IsDotPath p \<Longrightarrow>
     snd (FlatPath p) \<and> fst (FlatPath p) \<noteq> [] \<and> MakePath (fst (FlatPath p)) = Inr p"
proof (induction p rule: IsDotPath.induct)
  case (1 i)
  then show ?case by (simp add: MakePath_def)
next
  case (2 inner field)
  then show ?case
    by (cases "FlatPath inner"; cases "fst (FlatPath inner)") (auto simp: MakePath_def)
qed simp_all

lemma Equals_refl_DotPath: "IsDotPath p \<Longrightarrow> Equals p p = Some True"
  by (induction p rule: IsDotPath.induct) simp_all

text \<open>
  C8 (the claim as stated fails). \<open>a[0]\<close> is a path expression; \<open>FlatPath\<close> returns
  \<open>nil\<close> and \<open>false\<close> for it, and \<open>MakePath\<close> of \<open>nil\<close> panics.
\<close>

theorem MakePath_FlatPath_Index_counterexample:
  "IsPath (Index (Ident ''a'') 0)
   \<and> FlatPath (Index (Ident ''a'') 0) = ([], False)
   \<and> MakePath (fst (FlatPath (Index (Ident ''a'') 0))) = Inl (Panic ''index out of range'')"
  by (simp add: MakePath_def)

text \<open>
  C8 (amended). For every path expression made of identifiers and dots only,
  \<open>FlatPath\<close> succeeds, and \<open>MakePath\<close> of its components returns an expression
  that is equivalent to the path under \<open>Equals\<close> (it is the path itself).
\<close>

theorem MakePath_FlatPath_roundtrip:
  assumes "IsDotPath p"
  shows "IsPath p \<and> snd (FlatPath p)
         \<and> (\<exists>q. MakePath (fst (FlatPath p)) = Inr q \<and> Equals q p = Some True)"
proof -
  have "IsPath p" using assms by (induction p rule: IsDotPath.induct) simp_all
  then show ?thesis
    using FlatPath_MakePath [OF assms] Equals_refl_DotPath [OF assms] by simp
qed

theorem MakePath_FlatPath_roundtrip_witness:
  "IsDotPath (Dot (Dot (Ident ''a'') ''b'') ''c'')
   \<and> FlatPath (Dot (Dot (Ident ''a'') ''b'') ''c'') = ([''a'', ''b'', ''c''], True)
   \<and> MakePath [''a'', ''b'', ''c''] = Inr (Dot (Dot (Ident ''a'') ''b'') ''c'')
   \<and> Equals (Dot (Dot (Ident ''a'') ''b'') ''c'') (Dot (Dot (Ident ''a'') ''b'') ''c'') = Some True"
proof -
  have h: "IsDotPath (Dot (Dot (Ident ''a'') ''b'') ''c'')" by simp
  show ?thesis
    using MakePath_FlatPath_roundtrip [OF h] by (simp add: MakePath_def)
qed

subsection \<open>Simplification of an index expression\<close>

text \<open>
  C9 (the code panics). The offset \<open>-1\<close> passes the test \<open>i.Offset < len(l.Values)\<close>
  and the read \<open>l.Values[-1]\<close> panics, for a \<open>List\<close> node and for a \<open>MAKE_LIST\<close>
  call alike; an offset past the end does give \<open>MISSING\<close>, and one in range the element.
\<close>

theorem Index_simplify_negative_panics:
  "Index_simplify MakeList (Lit (List [Integer 7, Integer 8])) (- 1) =
     Inl (Panic ''index out of range'')
   \<and> Index_simplify MakeList (Builtin MakeList ''MAKE_LIST'' [Ident ''x'']) (- 1) =
     Inl (Panic ''index out of range'')
   \<and> Index_simplify MakeList (Lit (List [Integer 7, Integer 8])) 2 = Inr Missing
   \<and> Index_simplify MakeList (Lit (List [Integer 7, Integer 8])) 1 = Inr (Lit (Integer 8))"
  by (simp add: Index_simplify_def slice_index_def)

subsection \<open>Equivalence of numeric literals\<close>

lemma zero_Integer_Float: "Equals (Lit (Integer 0)) (Lit (Float (FFinite 0))) = Some True"
  by code_simp

lemma zero_Float_Integer: "Equals (Lit (Float (FFinite 0))) (Lit (Integer 0)) = Some True"
  by code_simp

lemma zero_Integer_Rational: "Equals (Lit (Integer 0)) (Lit (Rational 0)) = Some True"
  by code_simp

lemma zero_Rational_Integer: "Equals (Lit (Rational 0)) (Lit (Integer 0)) = Some True"
  by code_simp

lemma zero_Float_Rational: "Equals (Lit (Float (FFinite 0))) (Lit (Rational 0)) = Some True"
  by code_simp

lemma zero_Rational_Float: "Equals (Lit (Rational 0)) (Lit (Float (FFinite 0))) = Some True"
  by code_simp

lemma Float_Integer_rounds:
  "Equals (Lit (Float (FFinite (2 ^ 53)))) (Lit (Integer (2 ^ 53 + 1))) = Some True"
  by code_simp

lemma Integer_Float_exact:
  "Equals (Lit (Integer (2 ^ 53 + 1))) (Lit (Float (FFinite (2 ^ 53)))) = Some False"
  by code_simp

lemma Integer_Float_same:
  "Equals (Lit (Integer (2 ^ 53))) (Lit (Float (FFinite (2 ^ 53)))) = Some True"
  by code_simp

lemma Integer_Integer_differ:
  "Equals (Lit (Integer (2 ^ 53))) (Lit (Integer (2 ^ 53 + 1))) = Some False"
  by code_simp

lemma Rational_Float_tolerance:
  "Equals (Lit (Rational (1 / 2 ^ 60))) (Lit (Float (FFinite 0))) = Some True"
  by code_simp

lemma Float_Rational_exact:
  "Equals (Lit (Float (FFinite 0))) (Lit (Rational (1 / 2 ^ 60))) = Some False"
  by code_simp

text \<open>
  C5 (the code breaks the law). \<open>Integer(0)\<close>, \<open>Float(0.0)\<close> and \<open>Rational(0/1)\<close> are
  equivalent, each way round. But \<open>Equals\<close> is not symmetric on numeric literals:
  \<open>Float.Equals\<close> rounds an \<open>Integer\<close> to \<open>float64\<close> before it compares, so
  \<open>Float(2^53)\<close> equals \<open>Integer(2^53 + 1)\<close>, while \<open>Integer.Equals\<close> compares exactly
  and says no; \<open>Rational.Equals\<close> accepts a \<open>Float\<close> within \<open>1e-16\<close>, while
  \<open>Float.Equals\<close> wants the rational to be that float exactly. Nor is it transitive:
  \<open>Integer(2^53)\<close> equals \<open>Float(2^53)\<close>, which equals \<open>Integer(2^53 + 1)\<close>.
\<close>

theorem Equals_numeric_not_symmetric:
  "Equals (Lit (Integer 0)) (Lit (Float (FFinite 0))) = Some True
   \<and> Equals (Lit (Float (FFinite 0))) (Lit (Integer 0)) = Some True
   \<and> Equals (Lit (Integer 0)) (Lit (Rational 0)) = Some True
   \<and> Equals (Lit (Rational 0)) (Lit (Integer 0)) = Some True
   \<and> Equals (Lit (Float (FFinite 0))) (Lit (Rational 0)) = Some True
   \<and> Equals (Lit (Rational 0)) (Lit (Float (FFinite 0))) = Some True
   \<and> Equals (Lit (Float (FFinite (2 ^ 53)))) (Lit (Integer (2 ^ 53 + 1))) = Some True
   \<and> Equals (Lit (Integer (2 ^ 53 + 1))) (Lit (Float (FFinite (2 ^ 53)))) = Some False
   \<and> Equals (Lit (Rational (1 / 2 ^ 60))) (Lit (Float (FFinite 0))) = Some True
   \<and> Equals (Lit (Float (FFinite 0))) (Lit (Rational (1 / 2 ^ 60))) = Some False
   \<and> Equals (Lit (Integer (2 ^ 53))) (Lit (Float (FFinite (2 ^ 53)))) = Some True
   \<and> Equals (Lit (Integer (2 ^ 53))) (Lit (Integer (2 ^ 53 + 1))) = Some False"
  using zero_Integer_Float zero_Float_Integer zero_Integer_Rational zero_Rational_Integer
    zero_Float_Rational zero_Rational_Float Float_Integer_rounds Integer_Float_exact
    Integer_Float_same Integer_Integer_differ Rational_Float_tolerance Float_Rational_exact
  by (intro conjI)

subsection \<open>Rule engine\<close>

lemma fpoStatus_distinct:
  "fpoUpdate \<noteq> fpoIntact" "fpoReplace \<noteq> fpoIntact" "fpoReplace \<noteq> fpoUpdate"
  "fpoIntact \<noteq> fpoUpdate" "fpoIntact \<noteq> fpoReplace" "fpoUpdate \<noteq> fpoReplace"
  by (simp_all add: fpoIntact_def fpoUpdate_def fpoReplace_def)

lemma run_passes_optimize: "run_passes k fpo h btop = Some r \<Longrightarrow> optimize fpo h btop = Some r"
proof (induction k arbitrary: h btop)
  case 0
  then show ?case by simp
next
  case (Suc k)
  then show ?case
    by (subst optimize.simps) (auto split: option.splits sum.splits if_splits)
qed

lemma optimize_run_passes:
  assumes "optimize fpo h btop = Some r"
  shows "\<exists>k. run_passes k fpo h btop = Some r"
proof (rule optimize.raw_induct
    [where P = "\<lambda>fpo h btop r. \<exists>k. run_passes k fpo h btop = Some r", OF _ assms])
  fix opt :: "'p fixedPointOptimizer \<Rightarrow> 'p heap \<Rightarrow> addr option \<Rightarrow> (error + 'p heap \<times> addr option) option"
    and fpo h btop r
  assume IH: "\<And>fpo h btop r. opt fpo h btop = Some r \<Longrightarrow> \<exists>k. run_passes k fpo h btop = Some r"
    and body: "Option.bind (walk fpo h btop None btop False)
       (\<lambda>r. case r of
          Inl e \<Rightarrow> Some (Inl e)
        | Inr (h', btop', somethingChanged) \<Rightarrow>
            if somethingChanged then opt fpo h' btop' else Some (Inr (h', btop'))) = Some r"
  show "\<exists>k. run_passes k fpo h btop = Some r"
  proof (cases "walk fpo h btop None btop False")
    case None
    with body show ?thesis by simp
  next
    case (Some res)
    show ?thesis
    proof (cases res)
      case (Inl e)
      with body Some have "run_passes (Suc 0) fpo h btop = Some r" by simp
      then show ?thesis by blast
    next
      case (Inr t)
      obtain h' btop' c where t: "t = (h', btop', c)" by (cases t)
      show ?thesis
      proof (cases c)
        case True
        with body Some Inr t have "opt fpo h' btop' = Some r" by simp
        from IH [OF this] obtain k where "run_passes k fpo h' btop' = Some r" by blast
        then have "run_passes (Suc k) fpo h btop = Some r" using Some Inr t True by simp
        then show ?thesis by blast
      next
        case False
        with body Some Inr t have "run_passes (Suc 0) fpo h btop = Some r" by simp
        then show ?thesis by blast
      qed
    qed
  qed
qed

lemma fold_fpo_add:
  "fold fpo_add rs fpo name = fpo name @ map snd (filter (\<lambda>r. fst r = name) rs)"
  by (induction rs arbitrary: fpo) (auto simp: fpo_add_def)

lemma newFixedPointOptimizer_order:
  "newFixedPointOptimizer rs name = map snd (filter (\<lambda>r. fst r = name) rs)"
  by (simp add: newFixedPointOptimizer_def fold_fpo_add)

lemma apply_rules_append:
  "apply_rules (pre @ r # post) s h =
     (case apply_rules pre s h of
        Inl e \<Rightarrow> Inl e
      | Inr (h1, n1, st1) \<Rightarrow>
          if st1 \<noteq> fpoIntact then Inr (h1, n1, st1)
          else (case r s h1 of (h2, out0, st2) \<Rightarrow>
                  if st2 \<noteq> fpoIntact then
                    (case out0 of None \<Rightarrow> Inl nil_Step | Some n \<Rightarrow> Inr (h2, Some n, st2))
                  else apply_rules post s h2))"
  by (induction pre arbitrary: h) (auto split: prod.splits option.splits)

lemma apply_rules_nil_iff:
  "apply_rules rs s h = Inr (h', n, st) \<Longrightarrow> (n = None) = (st = fpoIntact)"
  by (induction rs arbitrary: h) (auto split: prod.splits if_splits option.splits)

lemma walk_None: "walk fpo h btop prev None c = Some (Inr (h, btop, c))"
  by (subst walk.simps) simp

lemma walk_Panic:
  "fpo_apply fpo a h = Inl e \<Longrightarrow> walk fpo h btop prev (Some a) c = Some (Inl e)"
  by (subst walk.simps) simp

lemma walk_Intact:
  "fpo_apply fpo a h = Inr (h', n, fpoIntact) \<Longrightarrow>
   walk fpo h btop prev (Some a) c = walk fpo h' btop (Some a) (parent (h' a)) c"
  by (subst walk.simps) (simp add: fpoStatus_distinct)

lemma walk_Update:
  "fpo_apply fpo a h = Inr (h', n, fpoUpdate) \<Longrightarrow>
   walk fpo h btop prev (Some a) c = walk fpo h' btop prev (Some a) True"
  by (subst walk.simps) simp

lemma walk_Replace_top:
  "fpo_apply fpo a h = Inr (h', n, fpoReplace) \<Longrightarrow>
   walk fpo h btop None (Some a) c = walk fpo h' n None n True"
  by (subst walk.simps) (simp add: fpoStatus_distinct)

lemma walk_Replace_mid:
  "fpo_apply fpo a h = Inr (h', n, fpoReplace) \<Longrightarrow>
   walk fpo h btop (Some p) (Some a) c =
     walk fpo (h' (p := (h' p) \<lparr>parent := n\<rparr>)) btop (Some p) n True"
  by (subst walk.simps) (simp add: fpoStatus_distinct setparent_def)

lemma walk_other:
  "fpo_apply fpo a h = Inr (h', n, st) \<Longrightarrow> st \<noteq> fpoIntact \<Longrightarrow> st \<noteq> fpoUpdate \<Longrightarrow>
   st \<noteq> fpoReplace \<Longrightarrow>
   walk fpo h btop prev (Some a) c = walk fpo h' btop prev (Some a) c"
  by (subst walk.simps) simp

lemma ex_nil_update_panics:
  "walk (newFixedPointOptimizer [(''*pir.Limit'', ex_nil_update)]) ex_heap (Some 10) None (Some 10)
     False = Some (Inl nil_Step)"
  by (rule walk_Panic)
     (simp add: fpo_apply_def newFixedPointOptimizer_order ex_heap_def ex_nil_update_def
        fpoStatus_distinct)

lemma ex_nil_replace_panics:
  "walk (newFixedPointOptimizer [(''*pir.Limit'', ex_nil_replace)]) ex_heap (Some 10) None (Some 10)
     False = Some (Inl nil_Step)"
  by (rule walk_Panic)
     (simp add: fpo_apply_def newFixedPointOptimizer_order ex_heap_def ex_nil_replace_def
        fpoStatus_distinct)

text \<open>
  C3 (the claim as stated fails). A rule may report a status other than \<open>fpoIntact\<close>
  and return \<open>nil\<close> for the step. Then \<open>apply\<close> panics in its type assertion, and so
  does \<open>optimize\<close>: the walk does not go on at the same step after such an update, and
  nothing is linked into the chain after such a replacement.
\<close>

theorem fixedPointOptimizer_nil_step_counterexample:
  "snd (snd (ex_nil_update 10 ex_heap)) = fpoUpdate
   \<and> optimize (newFixedPointOptimizer [(''*pir.Limit'', ex_nil_update)]) ex_heap (Some 10)
       = Some (Inl nil_Step)
   \<and> snd (snd (ex_nil_replace 10 ex_heap)) = fpoReplace
   \<and> optimize (newFixedPointOptimizer [(''*pir.Limit'', ex_nil_replace)]) ex_heap (Some 10)
       = Some (Inl nil_Step)"
proof -
  have "optimize (newFixedPointOptimizer [(''*pir.Limit'', ex_nil_update)]) ex_heap (Some 10)
          = Some (Inl nil_Step)"
    by (rule run_passes_optimize [where k = "Suc 0"]) (simp add: ex_nil_update_panics)
  moreover
  have "optimize (newFixedPointOptimizer [(''*pir.Limit'', ex_nil_replace)]) ex_heap (Some 10)
          = Some (Inl nil_Step)"
    by (rule run_passes_optimize [where k = "Suc 0"]) (simp add: ex_nil_replace_panics)
  ultimately show ?thesis
    by (simp add: ex_nil_update_def ex_nil_replace_def)
qed

text \<open>
  C3 (amended). The rules registered for a type name are those given for it, in the
  order of registration; \<open>apply\<close> calls the rules of the step's dynamic type in that
  order, a rule is reached only if all rules before it returned \<open>fpoIntact\<close>, and
  when its status is not \<open>fpoIntact\<close> its result is returned if it has a step, and
  \<open>apply\<close> panics if the step is \<open>nil\<close>; so \<open>apply\<close> returns \<open>nil\<close> exactly with
  \<open>fpoIntact\<close>. The walk ends at \<open>nil\<close>, and with the panic of \<open>apply\<close>; on
  \<open>fpoIntact\<close> it moves to the parent, with the step as the preceding one; on
  \<open>fpoUpdate\<close> it stays at the step; on \<open>fpoReplace\<close> the new step becomes the top of
  the trace when there is no preceding step, and otherwise the parent pointer of the
  preceding step is overwritten with it (nothing else in the store changes), and the
  walk goes on at the new step; both set the flag. A status that is none of the three
  leaves the walk at the step. \<open>optimize\<close> returns exactly when, after some number of
  passes from the top, a pass ends with the flag cleared or with a panic.
\<close>

theorem fixedPointOptimizer_semantics:
  "newFixedPointOptimizer rs name = map snd (filter (\<lambda>r. fst r = name) rs)
   \<and> fpo_apply fpo a h = apply_rules (fpo (tyname (h a))) a h
   \<and> apply_rules (pre @ r # post) a h =
       (case apply_rules pre a h of
          Inl e \<Rightarrow> Inl e
        | Inr (h1, n1, st1) \<Rightarrow>
            if st1 \<noteq> fpoIntact then Inr (h1, n1, st1)
            else (case r a h1 of (h2, out0, st2) \<Rightarrow>
                    if st2 \<noteq> fpoIntact then
                      (case out0 of None \<Rightarrow> Inl nil_Step | Some m \<Rightarrow> Inr (h2, Some m, st2))
                    else apply_rules post a h2))
   \<and> (fpo_apply fpo a h = Inr (h', n, st) \<longrightarrow> (n = None) = (st = fpoIntact))
   \<and> walk fpo h btop prev None c = Some (Inr (h, btop, c))
   \<and> (fpo_apply fpo a h = Inl e \<longrightarrow> walk fpo h btop prev (Some a) c = Some (Inl e))
   \<and> (fpo_apply fpo a h = Inr (h', n, fpoIntact) \<longrightarrow>
        walk fpo h btop prev (Some a) c = walk fpo h' btop (Some a) (parent (h' a)) c)
   \<and> (fpo_apply fpo a h = Inr (h', n, fpoUpdate) \<longrightarrow>
        walk fpo h btop prev (Some a) c = walk fpo h' btop prev (Some a) True)
   \<and> (fpo_apply fpo a h = Inr (h', n, fpoReplace) \<longrightarrow>
        walk fpo h btop None (Some a) c = walk fpo h' n None n True \<and>
        walk fpo h btop (Some p) (Some a) c =
          walk fpo (h' (p := (h' p) \<lparr>parent := n\<rparr>)) btop (Some p) n True)
   \<and> (fpo_apply fpo a h = Inr (h', n, st) \<and> st \<noteq> fpoIntact \<and> st \<noteq> fpoUpdate \<and> st \<noteq> fpoReplace
        \<longrightarrow> walk fpo h btop prev (Some a) c = walk fpo h' btop prev (Some a) c)
   \<and> (optimize fpo h btop = Some res \<longleftrightarrow> (\<exists>k. run_passes k fpo h btop = Some res))"
proof -
  have "fpo_apply fpo a h = Inr (h', n, st) \<longrightarrow> (n = None) = (st = fpoIntact)"
    by (auto simp: fpo_apply_def dest: apply_rules_nil_iff)
  moreover have "optimize fpo h btop = Some res \<longleftrightarrow> (\<exists>k. run_passes k fpo h btop = Some res)"
    using optimize_run_passes run_passes_optimize by blast
  moreover have "fpo_apply fpo a h = apply_rules (fpo (tyname (h a))) a h"
    by (simp add: fpo_apply_def)
  ultimately show ?thesis
    using newFixedPointOptimizer_order [of rs name] apply_rules_append [of pre r post a h]
      walk_None [of fpo h btop prev c] walk_Intact [of fpo a h h' n btop prev c]
      walk_Update [of fpo a h h' n btop prev c] walk_Replace_top [of fpo a h h' n btop c]
      walk_Replace_mid [of fpo a h h' n btop p c] walk_Panic [of fpo a h e btop prev c]
      walk_other [of fpo a h h' n st btop prev c]
    by (intro conjI impI) auto
qed

theorem fixedPointOptimizer_semantics_witness:
  "optimize ex_fpo ex_heap (Some 10) =
     Some (Inr (ex_heap
       (10 := \<lparr>tyname = ''*pir.Limit'', parent = Some 20, payload = 0\<rparr>,
        20 := \<lparr>tyname = ''*pir.Filter'', parent = Some 40, payload = 3\<rparr>), Some 20))"
proof -
  let ?h1 = "ex_heap (10 := \<lparr>tyname = ''*pir.Limit'', parent = Some 20, payload = 0\<rparr>)"
  let ?h2 = "?h1 (20 := \<lparr>tyname = ''*pir.Filter'', parent = Some 40, payload = 3\<rparr>)"
  note sem = fixedPointOptimizer_semantics
    [where rs = "[(''*pir.Limit'', ex_rule), (''*pir.Distinct'', ex_drop), (''*pir.Limit'', ex_drop)]"
       and fpo = ex_fpo and pre = "[]"]
  have r: "ex_fpo ''*pir.Limit'' = [ex_rule, ex_drop]" "ex_fpo ''*pir.Distinct'' = [ex_drop]"
    "ex_fpo ''*pir.Filter'' = []" "ex_fpo ''*pir.IterTable'' = []"
    using sem [where name = "''*pir.Limit''"] sem [where name = "''*pir.Distinct''"]
      sem [where name = "''*pir.Filter''"] sem [where name = "''*pir.IterTable''"]
    by (simp_all add: ex_fpo_def)
  have a1: "fpo_apply ex_fpo 10 ex_heap = Inr (?h1, Some 10, fpoUpdate)"
    by (simp add: fpo_apply_def ex_heap_def r ex_rule_def fpoStatus_distinct)
  have a2: "fpo_apply ex_fpo 10 ?h1 = Inr (?h1, Some 20, fpoReplace)"
    by (simp add: fpo_apply_def ex_heap_def r ex_rule_def ex_drop_def fpoStatus_distinct)
  have a3: "fpo_apply ex_fpo 20 ?h1 = Inr (?h1, None, fpoIntact)"
    by (simp add: fpo_apply_def ex_heap_def r)
  have a4: "fpo_apply ex_fpo 30 ?h1 = Inr (?h1, Some 40, fpoReplace)"
    by (simp add: fpo_apply_def ex_heap_def r ex_drop_def fpoStatus_distinct)
  have a5: "fpo_apply ex_fpo 40 ?h2 = Inr (?h2, None, fpoIntact)"
    by (simp add: fpo_apply_def ex_heap_def r)
  have a6: "fpo_apply ex_fpo 20 ?h2 = Inr (?h2, None, fpoIntact)"
    by (simp add: fpo_apply_def ex_heap_def r)
  have p1: "parent (?h1 20) = Some 30" "parent (?h2 20) = Some 40" "parent (?h2 40) = None"
    by (simp_all add: ex_heap_def)
  have relink: "?h1 (20 := (?h1 20) \<lparr>parent := Some 40\<rparr>) = ?h2"
    by (simp add: ex_heap_def)
  have s1: "walk ex_fpo ex_heap (Some 10) None (Some 10) False =
            walk ex_fpo ?h1 (Some 10) None (Some 10) True"
    using sem [where h = ex_heap and a = 10 and h' = ?h1 and n = "Some 10" and prev = None
        and btop = "Some 10" and c = False] a1
    by simp
  have s2: "walk ex_fpo ?h1 (Some 10) None (Some 10) True =
            walk ex_fpo ?h1 (Some 20) None (Some 20) True"
    using sem [where h = ?h1 and a = 10 and h' = ?h1 and n = "Some 20" and btop = "Some 10"
        and c = True] a2
    by simp
  have s3: "walk ex_fpo ?h1 (Some 20) None (Some 20) True =
            walk ex_fpo ?h1 (Some 20) (Some 20) (Some 30) True"
    using sem [where h = ?h1 and a = 20 and h' = ?h1 and n = None and prev = None
        and btop = "Some 20" and c = True] a3 p1
    by simp
  have s4: "walk ex_fpo ?h1 (Some 20) (Some 20) (Some 30) True =
            walk ex_fpo ?h2 (Some 20) (Some 20) (Some 40) True"
    using sem [where h = ?h1 and a = 30 and h' = ?h1 and n = "Some 40" and p = 20
        and btop = "Some 20" and c = True] a4 relink
    by simp
  have s5: "walk ex_fpo ?h2 (Some 20) prev (Some 40) c = walk ex_fpo ?h2 (Some 20) (Some 40) None c"
    for prev c
    using sem [where h = ?h2 and a = 40 and h' = ?h2 and n = None and prev = prev
        and btop = "Some 20" and c = c] a5 p1
    by simp
  have s6: "walk ex_fpo ?h2 (Some 20) (Some 40) None c = Some (Inr (?h2, Some 20, c))" for c
    using sem [where h = ?h2 and prev = "Some 40" and btop = "Some 20" and c = c] by simp
  have s7: "walk ex_fpo ?h2 (Some 20) None (Some 20) False =
            walk ex_fpo ?h2 (Some 20) (Some 20) (Some 40) False"
    using sem [where h = ?h2 and a = 20 and h' = ?h2 and n = None and prev = None
        and btop = "Some 20" and c = False] a6 p1
    by simp
  have w1: "walk ex_fpo ex_heap (Some 10) None (Some 10) False = Some (Inr (?h2, Some 20, True))"
    by (simp only: s1 s2 s3 s4 s5 s6)
  have w2: "walk ex_fpo ?h2 (Some 20) None (Some 20) False = Some (Inr (?h2, Some 20, False))"
    by (simp only: s7 s5 s6)
  have "run_passes 2 ex_fpo ex_heap (Some 10) = Some (Inr (?h2, Some 20))"
    by (simp add: numeral_2_eq_2 w1 w2)
  then show ?thesis
    using sem [where h = ex_heap and btop = "Some 10" and res = "Inr (?h2, Some 20)"] by blast
qed

subsection \<open>Input deduplication\<close>

lemma find_equiv_Some:
  "find_equiv ys v j0 = Inr (Some j) \<Longrightarrow>
     j0 \<le> j \<and> j - j0 < length ys \<and> Equivalent (ys ! (j - j0)) v = Some True"
proof (induction ys arbitrary: j0)
  case Nil
  then show ?case by simp
next
  case (Cons y ys)
  show ?case
  proof (cases "Equivalent y v")
    case None
    with Cons.prems show ?thesis by simp
  next
    case (Some b)
    show ?thesis
    proof (cases b)
      case True
      with Some Cons.prems show ?thesis by simp
    next
      case False
      with Some Cons.prems have "find_equiv ys v (Suc j0) = Inr (Some j)" by simp
      from Cons.IH [OF this]
      have ih: "Suc j0 \<le> j" "j - Suc j0 < length ys"
        "Equivalent (ys ! (j - Suc j0)) v = Some True" by simp_all
      have "j - j0 = Suc (j - Suc j0)" using ih(1) by arith
      then show ?thesis using ih by simp
    qed
  qed
qed

lemma find_equiv_None:
  "find_equiv ys v j0 = Inr None \<Longrightarrow> \<forall>w\<in>set ys. Equivalent w v = Some False"
  by (induction ys arbitrary: j0) (auto split: option.splits bool.splits)

lemma find_equiv_total:
  "\<forall>w\<in>set ys. Equivalent w v \<noteq> None \<Longrightarrow> \<exists>r. find_equiv ys v j0 = Inr r"
  by (induction ys arbitrary: j0) (auto split: option.splits bool.splits)

lemma length_swap_remove: "length (swap_remove xs i) = length xs - 1"
  by (simp add: swap_remove_def)

lemma set_swap_remove: "set (swap_remove xs i) \<subseteq> set xs"
proof (cases "xs = []")
  case True
  then show ?thesis by (simp add: swap_remove_def)
next
  case False
  have "set (butlast (xs[i := last xs])) \<subseteq> set (xs[i := last xs])"
    by (meson in_set_butlastD subsetI)
  also have "\<dots> \<subseteq> insert (last xs) (set xs)" by (rule set_update_subset_insert)
  also have "\<dots> = set xs" using False by auto
  finally show ?thesis by (simp add: swap_remove_def)
qed

lemma nth_swap_remove: "k < i \<Longrightarrow> i < length xs \<Longrightarrow> swap_remove xs i ! k = xs ! k"
  by (simp add: swap_remove_def nth_butlast)

lemma mset_swap_remove:
  assumes "i < length xs"
  shows "add_mset (xs ! i) (mset (swap_remove xs i)) = mset xs"
proof -
  let ?ys = "xs[i := last xs]"
  have ne: "?ys \<noteq> []" using assms by auto
  have l: "last ?ys = last xs"
  proof -
    have "xs \<noteq> []" using assms by auto
    then show ?thesis by (simp add: last_list_update)
  qed
  have "mset ?ys = add_mset (last ?ys) (mset (butlast ?ys))"
    using ne by (metis append_butlast_last_id mset.simps(2) mset_append union_mset_add_mset_right
        add.right_neutral mset.simps(1))
  then have 1: "mset ?ys = add_mset (last xs) (mset (swap_remove xs i))"
    by (simp add: l swap_remove_def)
  have 2: "mset ?ys = add_mset (last xs) (mset xs - {#xs ! i#})"
    using assms by (simp add: mset_update)
  from 1 2 have "mset (swap_remove xs i) = mset xs - {#xs ! i#}" by simp
  then show ?thesis using assms by simp
qed


lemma overlap_loop_stop:
  assumes "\<not> (i < length xc \<and> 0 < length yc)"
  shows "overlap_loop xc yc ov i = Inr (Some (xc, yc, ov, i))"
  by (simp only: overlap_loop.simps [of xc yc ov i] assms if_False)

lemma overlap_loop_step:
  assumes "i < length xc \<and> 0 < length yc"
  shows "overlap_loop xc yc ov i =
     (case find_equiv yc (xc ! i) 0 of
        Inl e \<Rightarrow> Inl e
      | Inr (Some j) \<Rightarrow> overlap_loop (swap_remove xc i) (swap_remove yc j) (ov @ [xc ! i]) i
      | Inr None \<Rightarrow>
          if \<not> canRemoveHint (xc ! i) then Inr None else overlap_loop xc yc ov (i + 1))"
  by (simp only: overlap_loop.simps [of xc yc ov i] assms if_True simp_thms)

lemma overlap_loop_Some:
  assumes "overlap_loop xc yc ov i = Inr (Some (xc', yc', ov', i'))" and "i \<le> length xc"
  shows "\<exists>ovd ymd. ov' = ov @ ovd \<and> mset xc = mset ovd + mset xc' \<and> mset yc = mset ymd + mset yc'
           \<and> list_all2 (\<lambda>v w. Equivalent w v = Some True) ovd ymd
           \<and> i \<le> i' \<and> i' \<le> length xc' \<and> (\<forall>k<i. xc' ! k = xc ! k) \<and> set yc' \<subseteq> set yc
           \<and> (\<forall>k. i \<le> k \<and> k < i' \<longrightarrow>
                  canRemoveHint (xc' ! k) \<and> (\<forall>w\<in>set yc'. Equivalent w (xc' ! k) = Some False))
           \<and> (i' = length xc' \<or> yc' = [])"
  using assms
proof (induction xc yc ov i rule: overlap_loop.induct)
  case (1 xconj yconj overlap i)
  show ?case
  proof (cases "i < length xconj \<and> 0 < length yconj")
    case False
    with "1.prems" have eq: "xc' = xconj" "yc' = yconj" "ov' = overlap" "i' = i"
      by (simp_all add: overlap_loop_stop)
    have fin: "i' = length xc' \<or> yc' = []" using False eq "1.prems"(2) by auto
    have rng: "\<forall>k. i \<le> k \<and> k < i' \<longrightarrow>
                  canRemoveHint (xc' ! k) \<and> (\<forall>w\<in>set yc'. Equivalent w (xc' ! k) = Some False)"
      using eq by auto
    show ?thesis
      using eq "1.prems"(2) fin rng
      by (intro exI [of _ "[]"]) simp
  next
    case True
    show ?thesis
    proof (cases "find_equiv yconj (xconj ! i) 0")
      case (Inl e)
      with True "1.prems" show ?thesis by (simp add: overlap_loop_step)
    next
      case (Inr r)
      show ?thesis
      proof (cases r)
        case None
        with True Inr "1.prems"(1) have c: "canRemoveHint (xconj ! i)"
          by (auto simp: overlap_loop_step split: if_splits)
        with True Inr None "1.prems"(1)
        have run: "overlap_loop xconj yconj overlap (i + 1) = Inr (Some (xc', yc', ov', i'))"
          by (simp add: overlap_loop_step)
        have le: "i + 1 \<le> length xconj" using True by simp
        from "1.IH"(1) [OF True Inr None _ run le] c
        obtain ovd ymd where ih: "ov' = overlap @ ovd" "mset xconj = mset ovd + mset xc'"
          "mset yconj = mset ymd + mset yc'"
          "list_all2 (\<lambda>v w. Equivalent w v = Some True) ovd ymd"
          "i + 1 \<le> i'" "i' \<le> length xc'" "\<forall>k<i + 1. xc' ! k = xconj ! k" "set yc' \<subseteq> set yconj"
          "\<forall>k. i + 1 \<le> k \<and> k < i' \<longrightarrow>
                  canRemoveHint (xc' ! k) \<and> (\<forall>w\<in>set yc'. Equivalent w (xc' ! k) = Some False)"
          "i' = length xc' \<or> yc' = []"
          by auto
        have here: "xc' ! i = xconj ! i" using ih(7) by simp
        have none: "\<forall>w\<in>set yc'. Equivalent w (xconj ! i) = Some False"
          using find_equiv_None [of yconj "xconj ! i" 0] Inr None ih(8) by auto
        have rng: "\<forall>k. i \<le> k \<and> k < i' \<longrightarrow>
                  canRemoveHint (xc' ! k) \<and> (\<forall>w\<in>set yc'. Equivalent w (xc' ! k) = Some False)"
        proof (intro allI impI)
          fix k assume k: "i \<le> k \<and> k < i'"
          show "canRemoveHint (xc' ! k) \<and> (\<forall>w\<in>set yc'. Equivalent w (xc' ! k) = Some False)"
          proof (cases "k = i")
            case True
            then show ?thesis using here c none by simp
          next
            case False
            then have "i + 1 \<le> k \<and> k < i'" using k by simp
            then show ?thesis using ih(9) by blast
          qed
        qed
        show ?thesis
          using ih(1-6,8,10) ih(7) rng
          by (intro exI [of _ ovd] exI [of _ ymd]) simp
      next
        case (Some j)
        let ?xs = "swap_remove xconj i" and ?ys = "swap_remove yconj j"
        from find_equiv_Some [of yconj "xconj ! i" 0 j] Inr Some
        have j: "j < length yconj" "Equivalent (yconj ! j) (xconj ! i) = Some True" by simp_all
        from True Inr Some "1.prems"(1)
        have run: "overlap_loop ?xs ?ys (overlap @ [xconj ! i]) i = Inr (Some (xc', yc', ov', i'))"
          by (simp add: overlap_loop_step)
        have "i < length xconj" using True by simp
        then have le: "i \<le> length ?xs" unfolding length_swap_remove by arith
        from "1.IH"(2) [OF True Inr Some run le]
        obtain ovd ymd where ih: "ov' = (overlap @ [xconj ! i]) @ ovd" "mset ?xs = mset ovd + mset xc'"
          "mset ?ys = mset ymd + mset yc'"
          "list_all2 (\<lambda>v w. Equivalent w v = Some True) ovd ymd"
          "i \<le> i'" "i' \<le> length xc'" "\<forall>k<i. xc' ! k = ?xs ! k" "set yc' \<subseteq> set ?ys"
          "\<forall>k. i \<le> k \<and> k < i' \<longrightarrow>
                  canRemoveHint (xc' ! k) \<and> (\<forall>w\<in>set yc'. Equivalent w (xc' ! k) = Some False)"
          "i' = length xc' \<or> yc' = []"
          by auto
        have mx: "mset xconj = mset (xconj ! i # ovd) + mset xc'"
          using mset_swap_remove [of i xconj] True ih(2) by simp
        have my: "mset yconj = mset (yconj ! j # ymd) + mset yc'"
          using mset_swap_remove [of j yconj] j(1) ih(3) by simp
        have l2: "list_all2 (\<lambda>v w. Equivalent w v = Some True) (xconj ! i # ovd) (yconj ! j # ymd)"
          using ih(4) j(2) by simp
        have nth: "\<forall>k<i. xc' ! k = xconj ! k"
          using ih(7) True by (simp add: nth_swap_remove)
        have sub: "set yc' \<subseteq> set yconj" using ih(8) set_swap_remove [of yconj j] by blast
        show ?thesis
          using ih(1) mx my l2 ih(5,6) nth sub ih(9,10)
          by (intro exI [of _ "xconj ! i # ovd"] exI [of _ "yconj ! j # ymd"]) simp
      qed
    qed
  qed
qed


lemma overlap_loop_None:
  assumes "overlap_loop xc yc ov i = Inr None" and "i \<le> length xc"
  shows "\<exists>ovd ymd xr yr u. mset xc = mset ovd + mset xr \<and> mset yc = mset ymd + mset yr
           \<and> list_all2 (\<lambda>v w. Equivalent w v = Some True) ovd ymd
           \<and> u \<in> set xr \<and> \<not> canRemoveHint u \<and> (\<forall>w\<in>set yr. Equivalent w u = Some False)"
  using assms
proof (induction xc yc ov i rule: overlap_loop.induct)
  case (1 xconj yconj overlap i)
  show ?case
  proof (cases "i < length xconj \<and> 0 < length yconj")
    case False
    with "1.prems" show ?thesis by (simp add: overlap_loop_stop)
  next
    case True
    show ?thesis
    proof (cases "find_equiv yconj (xconj ! i) 0")
      case (Inl e)
      with True "1.prems" show ?thesis by (simp add: overlap_loop_step)
    next
      case (Inr r)
      show ?thesis
      proof (cases r)
        case None
        show ?thesis
        proof (cases "canRemoveHint (xconj ! i)")
          case False
          have u: "xconj ! i \<in> set xconj" using True by simp
          have none: "\<forall>w\<in>set yconj. Equivalent w (xconj ! i) = Some False"
            using find_equiv_None [of yconj "xconj ! i" 0] Inr None by simp
          show ?thesis
            using u none False
            by (intro exI [of _ "[]"] exI [of _ xconj] exI [of _ yconj] exI [of _ "xconj ! i"])
               simp
        next
          case c: True
          with True Inr None "1.prems"(1)
          have run: "overlap_loop xconj yconj overlap (i + 1) = Inr None"
            by (simp add: overlap_loop_step)
          have le: "i + 1 \<le> length xconj" using True by simp
          from "1.IH"(1) [OF True Inr None _ run le] c show ?thesis by simp
        qed
      next
        case (Some j)
        let ?xs = "swap_remove xconj i" and ?ys = "swap_remove yconj j"
        from find_equiv_Some [of yconj "xconj ! i" 0 j] Inr Some
        have j: "j < length yconj" "Equivalent (yconj ! j) (xconj ! i) = Some True" by simp_all
        from True Inr Some "1.prems"(1)
        have run: "overlap_loop ?xs ?ys (overlap @ [xconj ! i]) i = Inr None"
          by (simp add: overlap_loop_step)
        have "i < length xconj" using True by simp
        then have le: "i \<le> length ?xs" unfolding length_swap_remove by arith
        from "1.IH"(2) [OF True Inr Some run le]
        obtain ovd ymd xr yr u where ih: "mset ?xs = mset ovd + mset xr"
          "mset ?ys = mset ymd + mset yr"
          "list_all2 (\<lambda>v w. Equivalent w v = Some True) ovd ymd"
          "u \<in> set xr" "\<not> canRemoveHint u" "\<forall>w\<in>set yr. Equivalent w u = Some False"
          by auto
        have mx: "mset xconj = mset (xconj ! i # ovd) + mset xr"
          using mset_swap_remove [of i xconj] True ih(1) by simp
        have my: "mset yconj = mset (yconj ! j # ymd) + mset yr"
          using mset_swap_remove [of j yconj] j(1) ih(2) by simp
        have l2: "list_all2 (\<lambda>v w. Equivalent w v = Some True) (xconj ! i # ovd) (yconj ! j # ymd)"
          using ih(3) j(2) by simp
        show ?thesis
          using mx my l2 ih(4,5,6)
          by (intro exI [of _ "xconj ! i # ovd"] exI [of _ "yconj ! j # ymd"] exI [of _ xr]
              exI [of _ yr] exI [of _ u]) simp
      qed
    qed
  qed
qed

lemma overlap_loop_total:
  assumes "\<forall>v\<in>set xc. \<forall>w\<in>set yc. Equivalent w v \<noteq> None"
  shows "\<exists>r. overlap_loop xc yc ov i = Inr r"
  using assms
proof (induction xc yc ov i rule: overlap_loop.induct)
  case (1 xconj yconj overlap i)
  show ?case
  proof (cases "i < length xconj \<and> 0 < length yconj")
    case False
    then show ?thesis by (simp add: overlap_loop_stop)
  next
    case True
    then have "xconj ! i \<in> set xconj" by simp
    with "1.prems" have "\<forall>w\<in>set yconj. Equivalent w (xconj ! i) \<noteq> None" by blast
    from find_equiv_total [OF this, of 0]
    obtain r where r: "find_equiv yconj (xconj ! i) 0 = Inr r" by blast
    show ?thesis
    proof (cases r)
      case None
      show ?thesis
      proof (cases "canRemoveHint (xconj ! i)")
        case False
        with True r None show ?thesis by (simp add: overlap_loop_step)
      next
        case c: True
        from "1.IH"(1) [OF True r None _ "1.prems"] c
        obtain r' where "overlap_loop xconj yconj overlap (i + 1) = Inr r'" by auto
        with True r None c show ?thesis by (simp add: overlap_loop_step)
      qed
    next
      case (Some j)
      have "\<forall>v\<in>set (swap_remove xconj i). \<forall>w\<in>set (swap_remove yconj j). Equivalent w v \<noteq> None"
        using "1.prems" set_swap_remove [of xconj i] set_swap_remove [of yconj j] by blast
      from "1.IH"(2) [OF True r Some this]
      obtain r' where "overlap_loop (swap_remove xconj i) (swap_remove yconj j)
          (overlap @ [xconj ! i]) i = Inr r'" by auto
      with True r Some show ?thesis by (simp add: overlap_loop_step)
    qed
  qed
qed

lemma list_all_take_drop:
  assumes "i \<le> length xs" and "\<forall>k<i. P (xs ! k)" and "list_all P (drop i xs)"
  shows "list_all P xs"
proof -
  have "list_all P (take i xs)"
    using assms(1,2) by (simp add: list_all_length)
  then have "list_all P (take i xs @ drop i xs)"
    using assms(3) unfolding list_all_append by blast
  then show ?thesis by simp
qed


lemma conjoin_nonempty: "ov \<noteq> [] \<Longrightarrow> conjoin ov = Inr (foldl And (hd ov) (tl ov))"
  by (cases ov) simp_all

lemma mergeFilterHint_pairing:
  assumes tot: "\<forall>v\<in>set (hint_conjunctions x). \<forall>w\<in>set (hint_conjunctions y). Equivalent w v \<noteq> None"
  shows "\<exists>ok x' ov xr ym yr.
           mergeFilterHint x y = Inr (ok, x')
         \<and> mset (hint_conjunctions x) = mset ov + mset xr
         \<and> mset (hint_conjunctions y) = mset ym + mset yr
         \<and> list_all2 (\<lambda>v w. Equivalent w v = Some True) ov ym
         \<and> (ok \<longleftrightarrow> list_all canRemoveHint (xr @ yr))
         \<and> (ok \<longrightarrow> (\<forall>v\<in>set xr. \<forall>w\<in>set yr. Equivalent w v = Some False)
                \<and> x' = x \<lparr>hints := (hints x)
                     \<lparr>Filter_hint := (if ov = [] then None else Some (foldl And (hd ov) (tl ov)))\<rparr>\<rparr>)
         \<and> (\<not> ok \<longrightarrow> x' = x
                \<and> (\<exists>u. \<not> canRemoveHint u
                       \<and> (u \<in> set xr \<and> (\<forall>w\<in>set yr. Equivalent w u = Some False)
                          \<or> u \<in> set yr \<and> (\<forall>v\<in>set xr. Equivalent u v = Some False))))"
proof -
  let ?xs = "hint_conjunctions x" and ?ys = "hint_conjunctions y"
  from overlap_loop_total [OF tot, of "[]" 0]
  obtain r where r: "overlap_loop ?xs ?ys [] 0 = Inr r" by blast
  show ?thesis
  proof (cases r)
    case None
    from overlap_loop_None [of ?xs ?ys "[]" 0] r None
    obtain ovd ymd xr yr u where f: "mset ?xs = mset ovd + mset xr" "mset ?ys = mset ymd + mset yr"
      "list_all2 (\<lambda>v w. Equivalent w v = Some True) ovd ymd"
      "u \<in> set xr" "\<not> canRemoveHint u" "\<forall>w\<in>set yr. Equivalent w u = Some False"
      by auto
    have m: "mergeFilterHint x y = Inr (False, x)"
      using r None by (simp add: mergeFilterHint_def)
    have na: "\<not> list_all canRemoveHint (xr @ yr)"
      using f(4,5) by (auto simp: list_all_iff)
    show ?thesis
      using m f na
      by (intro exI [of _ False] exI [of _ x] exI [of _ ovd] exI [of _ xr] exI [of _ ymd]
          exI [of _ yr]) auto
  next
    case (Some st)
    obtain xc' yc' ov' i' where st: "st = (xc', yc', ov', i')" by (cases st)
    from overlap_loop_Some [of ?xs ?ys "[]" 0 xc' yc' ov' i'] r Some st
    obtain ymd where f: "mset ?xs = mset ov' + mset xc'" "mset ?ys = mset ymd + mset yc'"
      "list_all2 (\<lambda>v w. Equivalent w v = Some True) ov' ymd"
      "i' \<le> length xc'"
      "\<forall>k<i'. canRemoveHint (xc' ! k) \<and> (\<forall>w\<in>set yc'. Equivalent w (xc' ! k) = Some False)"
      "i' = length xc' \<or> yc' = []"
      by auto
    have maxi: "\<forall>v\<in>set xc'. \<forall>w\<in>set yc'. Equivalent w v = Some False"
    proof (cases "yc' = []")
      case True
      then show ?thesis by simp
    next
      case False
      with f(6) have len: "i' = length xc'" by simp
      show ?thesis
      proof (intro ballI)
        fix v w assume v: "v \<in> set xc'" and w: "w \<in> set yc'"
        from v obtain k where k: "k < length xc'" "xc' ! k = v"
          by (auto simp: in_set_conv_nth)
        with f(5) len w show "Equivalent w v = Some False" by blast
      qed
    qed
    show ?thesis
    proof (cases "list_all canRemoveHint (drop i' xc')")
      case False
      then obtain u where u: "u \<in> set (drop i' xc')" "\<not> canRemoveHint u"
        by (auto simp: list_all_iff)
      then have ne: "drop i' xc' \<noteq> []" by auto
      then have "i' < length xc'" by simp
      with f(6) have y0: "yc' = []" by simp
      have ux: "u \<in> set xc'" using u(1) by (rule in_set_dropD)
      have m: "mergeFilterHint x y = Inr (False, x)"
        using r Some st False by (simp add: mergeFilterHint_def)
      have na: "\<not> list_all canRemoveHint (xc' @ yc')"
        using ux u(2) by (auto simp: list_all_iff)
      show ?thesis
        using m f(1,2,3) na ux u(2) y0
        by (intro exI [of _ False] exI [of _ x] exI [of _ ov'] exI [of _ xc'] exI [of _ ymd]
            exI [of _ yc']) auto
    next
      case dx: True
      have allx: "list_all canRemoveHint xc'"
        using list_all_take_drop [of i' xc' canRemoveHint] f(4,5) dx by blast
      show ?thesis
      proof (cases "list_all canRemoveHint yc'")
        case False
        then obtain u where u: "u \<in> set yc'" "\<not> canRemoveHint u"
          by (auto simp: list_all_iff)
        have m: "mergeFilterHint x y = Inr (False, x)"
          using r Some st dx False by (simp add: mergeFilterHint_def)
        have na: "\<not> list_all canRemoveHint (xc' @ yc')"
          using u by (auto simp: list_all_iff)
        have nx: "\<forall>v\<in>set xc'. Equivalent u v = Some False" using maxi u(1) by blast
        show ?thesis
          using m f(1,2,3) na u nx
          by (intro exI [of _ False] exI [of _ x] exI [of _ ov'] exI [of _ xc'] exI [of _ ymd]
              exI [of _ yc']) auto
      next
        case dy: True
        let ?x' = "x \<lparr>hints := (hints x)
            \<lparr>Filter_hint := (if ov' = [] then None else Some (foldl And (hd ov') (tl ov')))\<rparr>\<rparr>"
        have m: "mergeFilterHint x y = Inr (True, ?x')"
          using r Some st dx dy by (simp add: mergeFilterHint_def conjoin_nonempty)
        have a: "list_all canRemoveHint (xc' @ yc')" using allx dy by simp
        show ?thesis
          using m f(1,2,3) a maxi
          by (intro exI [of _ True] exI [of _ ?x'] exI [of _ ov'] exI [of _ xc'] exI [of _ ymd]
              exI [of _ yc']) simp
      qed
    qed
  qed
qed

lemma put_single:
  "put \<lparr>inputs = [x], latest = l\<rparr> y =
     (case merge x y of
        Inl e \<Rightarrow> Inl e
      | Inr (ok, x') \<Rightarrow>
          if ok then Inr \<lparr>inputs = [x'], latest = 0\<rparr> else Inr \<lparr>inputs = [x, y], latest = 1\<rparr>)"
  by (simp add: put_def split: sum.splits prod.splits bool.splits)

lemma merge_success:
  assumes "Equals (table x) (table y) = Some True" and "mergeFilterHint x y = Inr (True, x1)"
  shows "\<exists>x2. merge x y = Inr (True, x2) \<and> Filter_hint (hints x2) = Filter_hint (hints x1)
            \<and> table x2 = table x1 \<and> handle x2 = None"
  using assms by (simp add: merge_def Let_def)

lemma ex_merge: "merge in_ts_ts in_ts = Inr (False, in_ts_ts)"
  by code_simp

lemma ex_shared:
  "list_all (\<lambda>c. list_ex (\<lambda>d. Equivalent d c = Some True) (hint_conjunctions in_ts))
     (hint_conjunctions in_ts_ts)"
  "list_all (\<lambda>d. list_ex (\<lambda>c. Equivalent d c = Some True) (hint_conjunctions in_ts_ts))
     (hint_conjunctions in_ts)"
  by code_simp+

lemma ex_put: "put \<lparr>inputs = [in_ts_ts], latest = - 1\<rparr> in_ts =
       Inr \<lparr>inputs = [in_ts_ts, in_ts], latest = 1\<rparr>"
  by (simp add: put_single ex_merge)

lemma ex_h1: "Equals (table in_ts_b) (table in_c_ts) \<noteq> None"
  by code_simp

lemma ex_h2: "\<forall>v\<in>set (hint_conjunctions in_ts_b). \<forall>w\<in>set (hint_conjunctions in_c_ts).
      Equivalent w v \<noteq> None"
  by code_simp

lemma ex_merge2: "merge in_ts_b in_c_ts =
   Inr (True, \<lparr>table = Ident ''t'',
     hints = \<lparr>Filter_hint = Some ts_cmp, Fields_hint = [''b'', ''c'', ''ts''],
              AllFields_hint = False\<rparr>,
     handle = None\<rparr>)"
  by code_simp

text \<open>
  C1 (the claim as stated fails). The existing input has the filter
  \<open>ts < t AND ts < t\<close> and the new one \<open>ts < t\<close>, on one table. Every conjunct of
  either filter has an equivalent conjunct in the other, so no conjunct is unshared;
  yet the second copy finds no partner, cannot be removed, and the inputs are kept in
  two slots.
\<close>

theorem merge_duplicate_conjunct_counterexample:
  "Equals (table in_ts_ts) (table in_ts) = Some True
   \<and> list_all (\<lambda>c. list_ex (\<lambda>d. Equivalent d c = Some True) (hint_conjunctions in_ts))
       (hint_conjunctions in_ts_ts)
   \<and> list_all (\<lambda>d. list_ex (\<lambda>c. Equivalent d c = Some True) (hint_conjunctions in_ts_ts))
       (hint_conjunctions in_ts)
   \<and> merge in_ts_ts in_ts = Inr (False, in_ts_ts)
   \<and> put \<lparr>inputs = [in_ts_ts], latest = - 1\<rparr> in_ts =
       Inr \<lparr>inputs = [in_ts_ts, in_ts], latest = 1\<rparr>"
proof -
  have "Equals (table in_ts_ts) (table in_ts) = Some True" by code_simp
  then show ?thesis using ex_shared ex_merge ex_put by simp
qed

text \<open>
  C1 (amended). Where \<open>Equals\<close> does not panic on the table expressions and on the
  pairs of conjuncts, \<open>merge\<close> returns, and there is a pairing of the top-level
  conjuncts of the two filters: conjuncts \<open>ov\<close> of the existing input, each paired
  with an equivalent conjunct of the new input (\<open>ym\<close>), one for one, with the
  conjuncts \<open>xr\<close> and \<open>yr\<close> left over. A conjunct that occurs more often on one side
  than on the other is left over. The inputs are merged if and only if the table
  expressions are equal and every left-over conjunct is removable (it is not a
  comparison with a timestamp literal as an operand, nor a logical composition with
  one). On success no left-over conjunct of one side is equivalent to one of the other,
  the merged filter is the conjunction of \<open>ov\<close> (none when \<open>ov\<close> is empty), the
  handle is cleared, and \<open>put\<close> leaves one slot. On failure the existing input is
  unchanged and \<open>put\<close> appends the new one; if the tables are equal, some left-over
  conjunct is not removable and has no equivalent among the other side's left-overs.
\<close>

theorem merge_pairing:  assumes t: "Equals (table x) (table y) \<noteq> None"
    and tot: "\<forall>v\<in>set (hint_conjunctions x). \<forall>w\<in>set (hint_conjunctions y). Equivalent w v \<noteq> None"
  shows "\<exists>ok x' ov xr ym yr.
           merge x y = Inr (ok, x')
         \<and> mset (hint_conjunctions x) = mset ov + mset xr
         \<and> mset (hint_conjunctions y) = mset ym + mset yr
         \<and> list_all2 (\<lambda>v w. Equivalent w v = Some True) ov ym
         \<and> (ok \<longleftrightarrow> Equals (table x) (table y) = Some True \<and> list_all canRemoveHint (xr @ yr))
         \<and> (ok \<longrightarrow> (\<forall>v\<in>set xr. \<forall>w\<in>set yr. Equivalent w v = Some False)
                \<and> Filter_hint (hints x') =
                    (if ov = [] then None else Some (foldl And (hd ov) (tl ov)))
                \<and> table x' = table x \<and> handle x' = None
                \<and> put \<lparr>inputs = [x], latest = l\<rparr> y = Inr \<lparr>inputs = [x'], latest = 0\<rparr>)
         \<and> (\<not> ok \<longrightarrow> x' = x
                \<and> put \<lparr>inputs = [x], latest = l\<rparr> y = Inr \<lparr>inputs = [x, y], latest = 1\<rparr>)
         \<and> (\<not> ok \<and> Equals (table x) (table y) = Some True \<longrightarrow>
                (\<exists>u. \<not> canRemoveHint u
                   \<and> (u \<in> set xr \<and> (\<forall>w\<in>set yr. Equivalent w u = Some False)
                      \<or> u \<in> set yr \<and> (\<forall>v\<in>set xr. Equivalent u v = Some False))))"
proof -
  from t obtain b where b: "Equals (table x) (table y) = Some b" by blast
  show ?thesis
  proof (cases b)
    case False
    have m: "merge x y = Inr (False, x)" using b False by (simp add: merge_def)
    show ?thesis
      using m b False
      by (intro exI [of _ False] exI [of _ x] exI [of _ "[]"] exI [of _ "hint_conjunctions x"]
          exI [of _ "[]"] exI [of _ "hint_conjunctions y"]) (simp add: put_single)
  next
    case True
    from mergeFilterHint_pairing [OF tot]
    obtain ok x1 ov xr ym yr where f: "mergeFilterHint x y = Inr (ok, x1)"
      "mset (hint_conjunctions x) = mset ov + mset xr"
      "mset (hint_conjunctions y) = mset ym + mset yr"
      "list_all2 (\<lambda>v w. Equivalent w v = Some True) ov ym"
      "ok \<longleftrightarrow> list_all canRemoveHint (xr @ yr)"
      "ok \<longrightarrow> (\<forall>v\<in>set xr. \<forall>w\<in>set yr. Equivalent w v = Some False)
                \<and> x1 = x \<lparr>hints := (hints x)
                     \<lparr>Filter_hint := (if ov = [] then None else Some (foldl And (hd ov) (tl ov)))\<rparr>\<rparr>"
      "\<not> ok \<longrightarrow> x1 = x
                \<and> (\<exists>u. \<not> canRemoveHint u
                       \<and> (u \<in> set xr \<and> (\<forall>w\<in>set yr. Equivalent w u = Some False)
                          \<or> u \<in> set yr \<and> (\<forall>v\<in>set xr. Equivalent u v = Some False)))"
      by blast
    show ?thesis
    proof (cases ok)
      case no: False
      have m: "merge x y = Inr (False, x)"
        using b True f(1,7) no by (simp add: merge_def)
      show ?thesis
        using m b True f(2-5,7) no
        by (intro exI [of _ False] exI [of _ x] exI [of _ ov] exI [of _ xr]
            exI [of _ ym] exI [of _ yr]) (simp add: put_single)
    next
      case yes: True
      have "Equals (table x) (table y) = Some True" "mergeFilterHint x y = Inr (True, x1)"
        using b True f(1) yes by simp_all
      from merge_success [OF this]
      obtain x2 where m: "merge x y = Inr (True, x2)"
        and x2: "Filter_hint (hints x2) = Filter_hint (hints x1)" "table x2 = table x1"
          "handle x2 = None"
        by blast
      have x1: "Filter_hint (hints x1) = (if ov = [] then None else Some (foldl And (hd ov) (tl ov)))"
        "table x1 = table x"
        using f(6) yes by simp_all
      show ?thesis
        using m b True f(2-6) yes x1 x2
        by (intro exI [of _ True] exI [of _ x2] exI [of _ ov] exI [of _ xr]
            exI [of _ ym] exI [of _ yr]) (simp add: put_single)
    qed
  qed
qed

theorem merge_pairing_witness:
  "\<exists>ov xr ym yr.
     merge in_ts_b in_c_ts =
       Inr (True, \<lparr>table = Ident ''t'',
              hints = \<lparr>Filter_hint = Some ts_cmp, Fields_hint = [''b'', ''c'', ''ts''],
                       AllFields_hint = False\<rparr>,
              handle = None\<rparr>)
     \<and> mset (hint_conjunctions in_ts_b) = mset ov + mset xr
     \<and> mset (hint_conjunctions in_c_ts) = mset ym + mset yr
     \<and> list_all2 (\<lambda>v w. Equivalent w v = Some True) ov ym
     \<and> list_all canRemoveHint (xr @ yr)
     \<and> Some ts_cmp = (if ov = [] then None else Some (foldl And (hd ov) (tl ov)))"
proof -
  from merge_pairing [OF ex_h1 ex_h2, of 0]
  obtain ok x' ov xr ym yr where f: "merge in_ts_b in_c_ts = Inr (ok, x')"
    "mset (hint_conjunctions in_ts_b) = mset ov + mset xr"
    "mset (hint_conjunctions in_c_ts) = mset ym + mset yr"
    "list_all2 (\<lambda>v w. Equivalent w v = Some True) ov ym"
    "ok \<longleftrightarrow> Equals (table in_ts_b) (table in_c_ts) = Some True \<and> list_all canRemoveHint (xr @ yr)"
    "ok \<longrightarrow> Filter_hint (hints x') = (if ov = [] then None else Some (foldl And (hd ov) (tl ov)))"
    by blast
  from f(1) ex_merge2 have ok: "ok" and x': "Filter_hint (hints x') = Some ts_cmp" by auto
  show ?thesis
    using ex_merge2 f(2-6) ok x'
    by (intro exI [of _ ov] exI [of _ xr] exI [of _ ym] exI [of _ yr]) simp
qed

end
